theory Spec2Isabelle
  imports Complex_Main "HOL-Library.Sublist"
begin

section \<open>Sequential multi-agent enhancement of documentation files\<close>

text \<open>
  A shallow embedding of the orchestration code of the repository: the task class
  \<^verbatim>\<open>EnhanceMetadataTask\<close> (\<^verbatim>\<open>execute\<close>, \<^verbatim>\<open>processFileSequentially\<close>,
  \<^verbatim>\<open>runAgentSafely\<close>, \<^verbatim>\<open>calculateConsolidatedRAGScore\<close>,
  \<^verbatim>\<open>generateWorkflowSummary\<close>, \<^verbatim>\<open>updateAgentStats\<close>, \<^verbatim>\<open>initializeAgentStats\<close>), the
  constructor of \<^verbatim>\<open>RunLogger\<close>, and \<^verbatim>\<open>DocumentProcessingTeam\<close> (\<^verbatim>\<open>addAgent\<close>,
  \<^verbatim>\<open>initialize\<close>, \<^verbatim>\<open>loadAllAgents\<close>, \<^verbatim>\<open>processDocuments\<close>).

  Conventions of the model.
  \<^item> A JavaScript \<^verbatim>\<open>Error\<close> is its message, a \<open>string\<close>; a call that may throw returns
    \<open>string + 'a\<close>, with \<open>Inl\<close> the message thrown.
  \<^item> Strings are byte strings. JavaScript numbers are modelled where they are integers:
    clock readings, durations and counters are \<open>int\<close> or \<open>nat\<close>, and so are the scores
    that agents report. A score with a fractional part is outside the model: the source
    adds and divides IEEE doubles, and the double sum of such scores need not be their
    exact sum. On integers whose sum stays below \<open>2 ^ 51\<close> the doubles of the source hold
    the exact sum, and their quotient by a count rounds to the same integer as the exact
    quotient does, which is what the model computes.
  \<^item> The file system and the clock are one value \<open>fsys\<close> that every agent may change at
    will; the operations that the orchestration code itself performs are also written to
    a log (\<open>oplog\<close>), which an agent cannot reach.
  \<^item> Console output is modelled only in \<^verbatim>\<open>RunLogger\<close>'s constructor and up to the input
    validation of \<^verbatim>\<open>execute\<close>. The fields \<^verbatim>\<open>addedFields\<close> and \<^verbatim>\<open>sequentialProcessing\<close> of
    the returned objects, which feed only console output and the pull request text, are
    left out, and so is the third argument of \<^verbatim>\<open>analyzeContent\<close>, which is always \<^verbatim>\<open>{}\<close>.
\<close>

subsection \<open>Strings and paths\<close>

type_synonym fpath = string

text \<open>\<^verbatim>\<open>path.join(a, b)\<close> on paths that are already normalised.\<close>

definition path_join :: "fpath \<Rightarrow> fpath \<Rightarrow> fpath" where
  "path_join a b = a @ ''/'' @ b"

definition digit_char :: "nat \<Rightarrow> char" where
  "digit_char d = ''0123456789'' ! d"

fun dec :: "nat \<Rightarrow> string" where
  "dec n = (if n < 10 then [digit_char n] else dec (n div 10) @ [digit_char (n mod 10)])"

declare dec.simps [simp del]

text \<open>The decimal text of an integer, as a template literal prints it.\<close>

definition show_int :: "int \<Rightarrow> string" where
  "show_int i = (if i < 0 then ''-'' @ dec (nat (- i)) else dec (nat i))"

definition is_alnum :: "char \<Rightarrow> bool" where
  "is_alnum c = (let n = (of_char c :: nat) in
     (48 \<le> n \<and> n \<le> 57) \<or> (65 \<le> n \<and> n \<le> 90) \<or> (97 \<le> n \<and> n \<le> 122))"

text \<open>\<^verbatim>\<open>s.replace(/[^a-z0-9]/gi, '-')\<close>\<close>

definition sanitize :: "string \<Rightarrow> string" where
  "sanitize s = map (\<lambda>c. if is_alnum c then c else CHR ''-'') s"

text \<open>\<^verbatim>\<open>s.split(/\s+/).length\<close>, for the whitespace of ASCII: one more than the number of
  maximal runs of whitespace.\<close>

definition is_ws :: "char \<Rightarrow> bool" where
  "is_ws c = (let n = (of_char c :: nat) in n = 32 \<or> (9 \<le> n \<and> n \<le> 13))"

fun ws_runs :: "bool \<Rightarrow> string \<Rightarrow> nat" where
  "ws_runs inrun [] = 0"
| "ws_runs inrun (c # cs) =
     (if is_ws c then (if inrun then 0 else 1) + ws_runs True cs else ws_runs False cs)"

definition wordCountOf :: "string \<Rightarrow> nat" where
  "wordCountOf s = ws_runs False s + 1"

subsection \<open>The file system, the clock and the log of the orchestrator's operations\<close>

text \<open>
  \<open>files\<close> holds the content of every file, \<open>denied\<close> the paths on which every file
  system call fails (no permission, a file where a directory is expected), \<open>clock\<close> is
  what \<^verbatim>\<open>Date.now()\<close> reads.
\<close>

record fsys =
  files :: "fpath \<rightharpoonup> string"
  denied :: "fpath set"
  clock :: int

datatype core_op =
    OpEnsureDir fpath
  | OpWrite fpath string
  | OpRead fpath
  | OpRemove fpath
  | OpInvoke string fpath string

record world =
  disk :: fsys
  oplog :: "core_op list"

definition logged :: "core_op \<Rightarrow> world \<Rightarrow> world" where
  "logged op w = w\<lparr>oplog := oplog w @ [op]\<rparr>"

definition fs_ensureDir :: "fpath \<Rightarrow> world \<Rightarrow> (string + unit) \<times> world" where
  "fs_ensureDir p w =
     (if p \<in> denied (disk w) then (Inl ''EACCES: permission denied, mkdir'', logged (OpEnsureDir p) w)
      else (Inr (), logged (OpEnsureDir p) w))"

definition fs_writeFile :: "fpath \<Rightarrow> string \<Rightarrow> world \<Rightarrow> (string + unit) \<times> world" where
  "fs_writeFile p c w =
     (if p \<in> denied (disk w) then (Inl ''EACCES: permission denied, open'', logged (OpWrite p c) w)
      else (Inr (), logged (OpWrite p c) (w\<lparr>disk := (disk w)\<lparr>files := (files (disk w))(p \<mapsto> c)\<rparr>\<rparr>)))"

definition fs_readFile :: "fpath \<Rightarrow> world \<Rightarrow> (string + string) \<times> world" where
  "fs_readFile p w =
     (if p \<in> denied (disk w) then (Inl ''EACCES: permission denied, open'', logged (OpRead p) w)
      else case files (disk w) p of
             None \<Rightarrow> (Inl ''ENOENT: no such file or directory, open'', logged (OpRead p) w)
           | Some c \<Rightarrow> (Inr c, logged (OpRead p) w))"

text \<open>\<^verbatim>\<open>fs.remove(p)\<close> of fs-extra deletes \<open>p\<close> and everything below it, and does not fail
  when \<open>p\<close> does not exist.\<close>

definition below :: "fpath \<Rightarrow> fpath \<Rightarrow> bool" where
  "below p q = (q = p \<or> prefix (p @ ''/'') q)"

definition fs_remove :: "fpath \<Rightarrow> world \<Rightarrow> (string + unit) \<times> world" where
  "fs_remove p w =
     (if p \<in> denied (disk w) then (Inl ''EACCES: permission denied, unlink'', logged (OpRemove p) w)
      else (Inr (), logged (OpRemove p)
              (w\<lparr>disk := (disk w)\<lparr>files := (\<lambda>q. if below p q then None else files (disk w) q)\<rparr>\<rparr>)))"

subsection \<open>Agents and their results\<close>

text \<open>The recognised score fields of \<^verbatim>\<open>enhancedMetadata\<close>; \<open>None\<close> is an absent field.\<close>

record metadata =
  ragScore :: "int option"
  chunkingScore :: "int option"
  validationScore :: "int option"
  seoScore :: "int option"

text \<open>What \<^verbatim>\<open>analyzeContent\<close> resolves to. \<open>improvements = None\<close> stands for a field that
  is absent or not an array.\<close>

record agent_result =
  enhancedMetadata :: "metadata option"
  improvements :: "string list option"
  content :: "string option"
  restructuredContent :: "string option"

text \<open>An agent: \<^verbatim>\<open>analyzeContent(filePath, content, {})\<close> throws or returns, and may change the
  file system and let time pass.\<close>

record agent =
  name :: string
  role :: string
  analyzeContent :: "fpath \<Rightarrow> string \<Rightarrow> fsys \<Rightarrow> (string + agent_result) \<times> fsys"

definition invoke :: "agent \<Rightarrow> fpath \<Rightarrow> string \<Rightarrow> world \<Rightarrow> (string + agent_result) \<times> world" where
  "invoke ag h c w =
     (case analyzeContent ag h c (disk w) of
        (out, d) \<Rightarrow> (out, logged (OpInvoke (name ag) h c) (w\<lparr>disk := d\<rparr>)))"

subsection \<open>\<^verbatim>\<open>runAgentSafely\<close>\<close>

definition tempDir :: "fpath \<Rightarrow> fpath" where
  "tempDir cwd = path_join cwd ''.temp-agent-processing''"

definition tempFileName :: "agent \<Rightarrow> int \<Rightarrow> string" where
  "tempFileName ag now = ''temp-'' @ sanitize (name ag) @ ''-'' @ show_int now @ ''.md''"

definition tempFilePath :: "fpath \<Rightarrow> agent \<Rightarrow> int \<Rightarrow> fpath" where
  "tempFilePath cwd ag now = path_join (tempDir cwd) (tempFileName ag now)"

text \<open>The body of the outer \<^verbatim>\<open>try\<close>: set the working copy up, run the agent on it, read
  it back (the input content if it cannot be read), delete it.\<close>

definition isolatedRun :: "fpath \<Rightarrow> agent \<Rightarrow> string \<Rightarrow> world \<Rightarrow> (string + agent_result) \<times> world" where
  "isolatedRun cwd ag c w =
     (case fs_ensureDir (tempDir cwd) w of
        (Inl e, w1) \<Rightarrow> (Inl e, w1)
      | (Inr u, w1) \<Rightarrow>
          (let tmp = tempFilePath cwd ag (clock (disk w1)) in
           case fs_writeFile tmp c w1 of
             (Inl e, w2) \<Rightarrow> (Inl e, w2)
           | (Inr u, w2) \<Rightarrow>
               (case invoke ag tmp c w2 of
                  (Inl e, w3) \<Rightarrow> (Inl e, w3)
                | (Inr res, w3) \<Rightarrow>
                    (case fs_readFile tmp w3 of
                       (rd, w4) \<Rightarrow>
                         (let resultContent = (case rd of Inr t \<Rightarrow> t | Inl e \<Rightarrow> c);
                              w5 = snd (fs_remove tmp w4)
                          in (Inr (res\<lparr>content := Some resultContent\<rparr>), w5))))))"

text \<open>The \<^verbatim>\<open>catch\<close>: delete the temporary directory, then call the agent with the
  parameters the wrapper was given.\<close>

definition fallbackRun :: "fpath \<Rightarrow> agent \<Rightarrow> fpath \<Rightarrow> string \<Rightarrow> world \<Rightarrow> (string + agent_result) \<times> world" where
  "fallbackRun cwd ag filePath c w =
     (let w1 = snd (fs_remove (tempDir cwd) w) in
      case invoke ag filePath c w1 of
        (Inr res, w2) \<Rightarrow> (Inr (res\<lparr>content := Some c\<rparr>), w2)
      | (Inl fallbackError, w2) \<Rightarrow>
          (Inl (''Agent '' @ name ag @ '' failed: '' @ fallbackError), w2))"

definition runAgentSafely :: "fpath \<Rightarrow> agent \<Rightarrow> fpath \<Rightarrow> string \<Rightarrow> world \<Rightarrow> (string + agent_result) \<times> world" where
  "runAgentSafely cwd ag filePath c w =
     (case isolatedRun cwd ag c w of
        (Inr r, w1) \<Rightarrow> (Inr r, w1)
      | (Inl e, w1) \<Rightarrow> fallbackRun cwd ag filePath c w1)"

subsection \<open>Agent statistics\<close>

text \<open>\<^verbatim>\<open>Math.round\<close>: the nearest integer, a half rounded up. It is only applied to the
  quotient of an integer by a count.\<close>

definition Math_round :: "rat \<Rightarrow> int" where
  "Math_round x = \<lfloor>x + 1 / 2\<rfloor>"

record agent_stat =
  successful :: nat
  failed :: nat
  totalProcessingTime :: int
  averageProcessingTime :: int

definition zero_stat :: agent_stat where
  "zero_stat = \<lparr>successful = 0, failed = 0, totalProcessingTime = 0, averageProcessingTime = 0\<rparr>"

text \<open>The statistics object, keyed by agent name.\<close>

type_synonym agent_stats = "string \<rightharpoonup> agent_stat"

definition updateAgentStats :: "agent_stats \<Rightarrow> string \<Rightarrow> bool \<Rightarrow> int \<Rightarrow> agent_stats" where
  "updateAgentStats agentStats agentName success processingTime =
     (let s = (case agentStats agentName of None \<Rightarrow> zero_stat | Some s \<Rightarrow> s) in
      if success then
        (let n = successful s + 1; t = totalProcessingTime s + processingTime in
         agentStats(agentName \<mapsto>
           s\<lparr>successful := n, totalProcessingTime := t,
             averageProcessingTime := Math_round (of_int t / of_nat n)\<rparr>))
      else agentStats(agentName \<mapsto> s\<lparr>failed := failed s + 1\<rparr>))"

definition initializeAgentStats :: "agent list \<Rightarrow> agent_stats" where
  "initializeAgentStats agents = foldl (\<lambda>stats ag. stats(name ag \<mapsto> zero_stat)) Map.empty agents"

subsection \<open>\<^verbatim>\<open>calculateConsolidatedRAGScore\<close>\<close>

text \<open>One entry of \<^verbatim>\<open>agentResults\<close>; \<open>result = None\<close> is \<^verbatim>\<open>result: null\<close>, \<open>error = None\<close>
  an entry without the \<^verbatim>\<open>error\<close> field.\<close>

record agentInvocationResult =
  agentName :: string
  agentRole :: string
  result :: "agent_result option"
  error :: "string option"
  processingTime :: int
  contentModified :: bool
  sequencePosition :: nat

text \<open>\<^verbatim>\<open>a || b\<close> on score fields: an absent field and the number 0 are falsy.\<close>

definition js_or :: "int option \<Rightarrow> int option \<Rightarrow> int option" where
  "js_or a b = (case a of Some x \<Rightarrow> (if x \<noteq> 0 then a else b) | None \<Rightarrow> b)"

definition metadataScore :: "metadata \<Rightarrow> int" where
  "metadataScore m =
     (case js_or (ragScore m) (js_or (chunkingScore m) (js_or (validationScore m) (seoScore m))) of
        Some x \<Rightarrow> (if x \<noteq> 0 then x else 75)
      | None \<Rightarrow> 75)"

text \<open>What the \<^verbatim>\<open>forEach\<close> pushes for one entry.\<close>

definition pushedScores :: "agentInvocationResult \<Rightarrow> int list" where
  "pushedScores r =
     (case result r of
        None \<Rightarrow> []
      | Some res \<Rightarrow>
          (case enhancedMetadata res of
             None \<Rightarrow> []
           | Some m \<Rightarrow> (let score = metadataScore m in if score > 0 then [score] else [])))"

definition calculateConsolidatedRAGScore :: "agentInvocationResult list \<Rightarrow> int" where
  "calculateConsolidatedRAGScore agentResults =
     (let scores = concat (map pushedScores agentResults) in
      if length scores > 0 then Math_round (of_int (sum_list scores) / of_nat (length scores))
      else 75)"

subsection \<open>\<^verbatim>\<open>processFileSequentially\<close>\<close>

record fileInfo =
  path :: fpath
  title :: string
  needsEnhancement :: bool

text \<open>An entry of \<^verbatim>\<open>contentEvolution\<close>; the first entry has no \<^verbatim>\<open>wordCount\<close>.\<close>

record snapshot =
  stage :: string
  snap_content :: string
  wordCount :: "nat option"

text \<open>The variables of the loop over the agents: \<open>st_x\<close> is the local variable or
  argument \<^verbatim>\<open>x\<close> of the source.\<close>

record loop_state =
  st_world :: world
  st_agentStats :: agent_stats
  st_agentResults :: "agentInvocationResult list"
  st_allImprovements :: "string list"
  st_contentEvolution :: "snapshot list"
  st_currentContent :: string

text \<open>\<^verbatim>\<open>x && x !== currentContent\<close> for an optional string: the empty string is falsy.\<close>

definition differs :: "string option \<Rightarrow> string \<Rightarrow> bool" where
  "differs x cur = (case x of None \<Rightarrow> False | Some s \<Rightarrow> s \<noteq> [] \<and> s \<noteq> cur)"

text \<open>Lines 183 to 193: the content that the orchestrator takes from a result.\<close>

definition newContentOf :: "agent_result \<Rightarrow> string \<Rightarrow> string" where
  "newContentOf res cur =
     (if differs (content res) cur then the (content res)
      else if differs (restructuredContent res) cur then the (restructuredContent res)
      else cur)"

text \<open>One round of the loop, for the agent at index \<open>i\<close>.\<close>

definition agentStep :: "fpath \<Rightarrow> fpath \<Rightarrow> nat \<Rightarrow> agent \<Rightarrow> loop_state \<Rightarrow> loop_state" where
  "agentStep cwd fullPath i ag st =
     (let startTime = clock (disk (st_world st)) in
      case runAgentSafely cwd ag fullPath (st_currentContent st) (st_world st) of
        (Inr res, w1) \<Rightarrow>
          (let ptime = clock (disk w1) - startTime;
               stats1 = updateAgentStats (st_agentStats st) (name ag) True ptime;
               imps1 = (case improvements res of
                          Some xs \<Rightarrow> st_allImprovements st @ xs
                        | None \<Rightarrow> st_allImprovements st);
               newContent = newContentOf res (st_currentContent st);
               changed = (newContent \<noteq> st_currentContent st);
               evo1 = (if changed
                       then st_contentEvolution st @
                            [\<lparr>stage = name ag, snap_content = newContent,
                              wordCount = Some (wordCountOf newContent)\<rparr>]
                       else st_contentEvolution st);
               cur1 = (if changed then newContent else st_currentContent st)
           in \<lparr>st_world = w1, st_agentStats = stats1,
               st_agentResults = st_agentResults st @
                 [\<lparr>agentName = name ag, agentRole = role ag, result = Some res, error = None,
                   processingTime = ptime, contentModified = (newContent \<noteq> cur1),
                   sequencePosition = i + 1\<rparr>],
               st_allImprovements = imps1, st_contentEvolution = evo1,
               st_currentContent = cur1\<rparr>)
      | (Inl msg, w1) \<Rightarrow>
          st\<lparr>st_world := w1,
             st_agentStats := updateAgentStats (st_agentStats st) (name ag) False 0,
             st_agentResults := st_agentResults st @
               [\<lparr>agentName = name ag, agentRole = role ag, result = None, error = Some msg,
                 processingTime = 0, contentModified = False, sequencePosition = i + 1\<rparr>]\<rparr>)"

text \<open>The loop \<^verbatim>\<open>for (let i = 0; i < this.agents.length; i++)\<close>, from index \<open>i\<close> on.\<close>

fun runAgents :: "fpath \<Rightarrow> fpath \<Rightarrow> nat \<Rightarrow> agent list \<Rightarrow> loop_state \<Rightarrow> loop_state" where
  "runAgents cwd fullPath i [] st = st"
| "runAgents cwd fullPath i (ag # ags) st =
     runAgents cwd fullPath (i + 1) ags (agentStep cwd fullPath i ag st)"

record enhancement =
  filePath :: fpath
  relativePath :: fpath
  originalContent :: string
  finalContent :: string
  contentEvolution :: "snapshot list"
  agentResults :: "agentInvocationResult list"
  enh_improvements :: "string list"
  enh_ragScore :: int
  enh_totalProcessingTime :: int

definition initialState :: "world \<Rightarrow> agent_stats \<Rightarrow> string \<Rightarrow> loop_state" where
  "initialState w agentStats orig =
     \<lparr>st_world = w, st_agentStats = agentStats, st_agentResults = [], st_allImprovements = [],
      st_contentEvolution = [\<lparr>stage = ''original'', snap_content = orig, wordCount = None\<rparr>],
      st_currentContent = orig\<rparr>"

definition enhancementOf :: "fpath \<Rightarrow> fileInfo \<Rightarrow> string \<Rightarrow> loop_state \<Rightarrow> enhancement" where
  "enhancementOf fullPath fi orig st =
     \<lparr>filePath = fullPath, relativePath = path fi, originalContent = orig,
      finalContent = st_currentContent st, contentEvolution = st_contentEvolution st,
      agentResults = st_agentResults st, enh_improvements = st_allImprovements st,
      enh_ragScore = calculateConsolidatedRAGScore (st_agentResults st),
      enh_totalProcessingTime = sum_list (map processingTime (st_agentResults st))\<rparr>"

text \<open>The statistics object is shared with the caller, so it is returned with the world.
  A failure to read the document is thrown to the caller.\<close>

definition processFileSequentially ::
  "fpath \<Rightarrow> agent list \<Rightarrow> fileInfo \<Rightarrow> agent_stats \<Rightarrow> world
     \<Rightarrow> (string + enhancement) \<times> agent_stats \<times> world" where
  "processFileSequentially cwd agents fi agentStats w =
     (let fullPath = path_join cwd (path fi) in
      case fs_readFile fullPath w of
        (Inl e, w1) \<Rightarrow> (Inl e, agentStats, w1)
      | (Inr orig, w1) \<Rightarrow>
          (let st = runAgents cwd fullPath 0 agents (initialState w1 agentStats orig)
           in (Inr (enhancementOf fullPath fi orig st), st_agentStats st, st_world st)))"

subsection \<open>\<^verbatim>\<open>RunLogger\<close>\<close>

text \<open>An entry of \<^verbatim>\<open>logEntries\<close>. The time stamp is the clock reading, not its ISO text, and
  the pictograph that opens a message is left out. The log file on disk mirrors
  \<^verbatim>\<open>logEntries\<close> and is not part of \<open>fsys\<close>.\<close>

record log_entry =
  timestamp :: int
  level :: string
  message :: string

record runLogger =
  logFile :: string
  logEntries :: "log_entry list"

text \<open>The constructor: once the console is captured, its own \<^verbatim>\<open>console.log\<close> is the
  first entry.\<close>

definition RunLogger_new :: "int \<Rightarrow> runLogger" where
  "RunLogger_new now =
     (let lf = ''./logs/runs/run-'' @ show_int now @ ''.log'' in
      \<lparr>logFile = lf,
       logEntries = [\<lparr>timestamp = now, level = ''INFO'',
                      message = ''[Run Logger] Capturing console output to: '' @ lf\<rparr>]\<rparr>)"

subsection \<open>\<^verbatim>\<open>generateWorkflowSummary\<close> and \<^verbatim>\<open>execute\<close>\<close>

text \<open>What \<^verbatim>\<open>createGitHubPR\<close> returns. The tool that talks to the hosting service is outside
  the orchestration code; it enters \<^verbatim>\<open>execute\<close> as a function of what it is handed.\<close>

datatype githubPR =
    PendingReview string int string
  | PublishFailed string

text \<open>The summary object. \<open>githubPR\<close> is added by \<^verbatim>\<open>execute\<close>, \<open>skipped\<close> by the team.\<close>

record summary =
  totalFiles :: nat
  sum_successful :: nat
  sum_failed :: nat
  sum_errors :: nat
  averageRagScore :: int
  agentCount :: nat
  agentCollaborations :: nat
  collaborationEffectiveness :: nat
  totalImprovements :: nat
  sum_totalProcessingTime :: int
  sum_timestamp :: int
  githubPR :: "githubPR option"
  skipped :: "nat option"

record doc_error =
  err_file :: string
  errorMessage :: string

definition generateWorkflowSummary ::
  "agent list \<Rightarrow> int \<Rightarrow> enhancement list \<Rightarrow> doc_error list \<Rightarrow> summary" where
  "generateWorkflowSummary agents now enhancements errors =
     (let successful' = length enhancements;
          failed' = length errors;
          total = successful' + failed';
          ragScores = filter (\<lambda>score. score \<noteq> 0 \<and> score > 0) (map enh_ragScore enhancements);
          avg = (if length ragScores > 0
                 then Math_round (of_int (sum_list ragScores) / of_nat (length ragScores))
                 else 0)
      in \<lparr>totalFiles = total, sum_successful = successful', sum_failed = failed',
          sum_errors = failed', averageRagScore = avg, agentCount = length agents,
          agentCollaborations = successful' * length agents,
          collaborationEffectiveness = (if successful' > 0 then 100 else 0),
          totalImprovements = sum_list (map (\<lambda>e. length (enh_improvements e)) enhancements),
          sum_totalProcessingTime = sum_list (map enh_totalProcessingTime enhancements),
          sum_timestamp = now, githubPR = None, skipped = None\<rparr>)"

text \<open>\<^verbatim>\<open>context.processedFiles\<close>: an array of file records, or any other value, of which only
  the text of \<^verbatim>\<open>typeof\<close> matters.\<close>

datatype js_files = NonArray string | FileArray "fileInfo list"

definition validateInputs :: "js_files \<Rightarrow> agent list \<Rightarrow> string + fileInfo list" where
  "validateInputs processedFiles agents =
     (case processedFiles of
        NonArray ty \<Rightarrow> Inl (''Invalid processedFiles: '' @ ty)
      | FileArray fs \<Rightarrow>
          (if fs = [] then Inl ''Invalid processedFiles: object''
           else if agents = [] then Inl ''No agents available for processing''
           else Inr fs))"

text \<open>The loop over the files: a document that cannot be read goes to \<^verbatim>\<open>errors\<close>.\<close>

fun processAll ::
  "fpath \<Rightarrow> agent list \<Rightarrow> fileInfo list \<Rightarrow> enhancement list \<Rightarrow> doc_error list \<Rightarrow> agent_stats
     \<Rightarrow> world \<Rightarrow> enhancement list \<times> doc_error list \<times> agent_stats \<times> world" where
  "processAll cwd agents [] enhancements errors agentStats w = (enhancements, errors, agentStats, w)"
| "processAll cwd agents (fi # fis) enhancements errors agentStats w =
     (case processFileSequentially cwd agents fi agentStats w of
        (Inr fileEnhancement, agentStats1, w1) \<Rightarrow>
          processAll cwd agents fis (enhancements @ [fileEnhancement]) errors agentStats1 w1
      | (Inl msg, agentStats1, w1) \<Rightarrow>
          processAll cwd agents fis enhancements
            (errors @ [\<lparr>err_file = title fi, errorMessage = msg\<rparr>]) agentStats1 w1)"

datatype exec_result =
    Failure string int
  | Success summary "enhancement list" "doc_error list" agent_stats

text \<open>The body of the \<^verbatim>\<open>try\<close> of \<^verbatim>\<open>execute\<close>. When it throws, the result holds the message
  and the logger as it is at the \<^verbatim>\<open>throw\<close>.\<close>

definition execute_try ::
  "fpath \<Rightarrow> (enhancement list \<Rightarrow> summary \<Rightarrow> githubPR) \<Rightarrow> agent list \<Rightarrow> js_files \<Rightarrow> world
     \<Rightarrow> ((string \<times> runLogger) + exec_result) \<times> world" where
  "execute_try cwd publish agents processedFiles w =
     (let logger = RunLogger_new (clock (disk w)) in
      case validateInputs processedFiles agents of
        Inl msg \<Rightarrow> (Inl (msg, logger), w)
      | Inr fs \<Rightarrow>
          (case processAll cwd agents fs [] [] (initializeAgentStats agents) w of
             (enhancements, errors, agentStats, w1) \<Rightarrow>
               (let summ = generateWorkflowSummary agents (clock (disk w1)) enhancements errors;
                    prResult = publish enhancements summ
                in (Inr (Success (summ\<lparr>githubPR := Some prResult\<rparr>) enhancements errors agentStats),
                    w1))))"

text \<open>The \<^verbatim>\<open>catch\<close> turns what was thrown into the object
  \<^verbatim>\<open>{success: false, error, timestamp}\<close>.\<close>

definition execute ::
  "fpath \<Rightarrow> (enhancement list \<Rightarrow> summary \<Rightarrow> githubPR) \<Rightarrow> agent list \<Rightarrow> js_files \<Rightarrow> world
     \<Rightarrow> exec_result \<times> world" where
  "execute cwd publish agents processedFiles w =
     (case execute_try cwd publish agents processedFiles w of
        (Inl (msg, logger), w1) \<Rightarrow> (Failure msg (clock (disk w1)), w1)
      | (Inr r, w1) \<Rightarrow> (r, w1))"

subsection \<open>\<^verbatim>\<open>DocumentProcessingTeam\<close>\<close>

text \<open>A task is an \<^verbatim>\<open>EnhanceMetadataTask\<close>, which is its list of agents.\<close>

record team =
  team_agents :: "agent list"
  tasks :: "agent list list"

definition maxAgents :: nat where
  "maxAgents = 6"

definition addAgent :: "agent \<Rightarrow> team \<Rightarrow> bool \<times> team" where
  "addAgent ag t =
     (if length (team_agents t) \<ge> maxAgents then (False, t)
      else (True, t\<lparr>team_agents := team_agents t @ [ag]\<rparr>))"

text \<open>The agent that \<^verbatim>\<open>loadAllAgents\<close> creates when no module could be loaded.\<close>

definition mockAgent :: agent where
  "mockAgent =
     \<lparr>name = ''mock-agent'', role = ''Mock Enhancement Agent'',
      analyzeContent = (\<lambda>h c d.
        (Inr \<lparr>enhancedMetadata =
                Some \<lparr>ragScore = Some 70, chunkingScore = None, validationScore = None,
                      seoScore = None\<rparr>,
              improvements = Some [''Basic mock enhancement''],
              content = None, restructuredContent = None\<rparr>, d))\<rparr>"

text \<open>\<open>loadable\<close>: the agents whose modules \<^verbatim>\<open>require\<close> could load, in the order of the
  configuration.\<close>

definition loadAllAgents :: "agent list \<Rightarrow> agent list" where
  "loadAllAgents loadable = (if loadable = [] then [mockAgent] else loadable)"

definition initialize :: "agent list \<Rightarrow> team \<Rightarrow> team" where
  "initialize loadable t =
     (let t1 = foldl (\<lambda>t ag. snd (addAgent ag t)) (t\<lparr>team_agents := [], tasks := []\<rparr>)
                 (loadAllAgents loadable)
      in t1\<lparr>tasks := tasks t1 @ [team_agents t1]\<rparr>)"

text \<open>The summary of the early return, when no file needs enhancement.\<close>

record skipped_summary =
  sk_totalFiles :: nat
  sk_successful :: nat
  sk_skipped :: nat
  sk_errors :: nat
  sk_averageRagScore :: int
  sk_agentCount :: nat

datatype team_result =
    NothingToEnhance skipped_summary
  | TaskResult exec_result

definition processDocuments ::
  "fpath \<Rightarrow> (enhancement list \<Rightarrow> summary \<Rightarrow> githubPR) \<Rightarrow> agent list \<Rightarrow> team \<Rightarrow> fileInfo list
     \<Rightarrow> world \<Rightarrow> team_result \<times> team \<times> world" where
  "processDocuments cwd publish loadable t processedFiles w =
     (let filesToEnhance = filter needsEnhancement processedFiles;
          skippedFiles = filter (\<lambda>f. \<not> needsEnhancement f) processedFiles
      in if length filesToEnhance = 0
         then (NothingToEnhance
                 \<lparr>sk_totalFiles = length processedFiles, sk_successful = 0,
                  sk_skipped = length skippedFiles, sk_errors = 0, sk_averageRagScore = 0,
                  sk_agentCount = length (team_agents t)\<rparr>, t, w)
         else
           (let t1 = (if team_agents t = [] \<or> tasks t = [] then initialize loadable t else t) in
            case tasks t1 of
              [] \<Rightarrow> (TaskResult (Failure ''Cannot read properties of undefined'' (clock (disk w))), t1, w)
            | enhanceTask # rest \<Rightarrow>
                (case execute cwd publish enhanceTask (FileArray filesToEnhance) w of
                   (Success summ enhancements errors agentStats, w1) \<Rightarrow>
                     (TaskResult
                        (Success (summ\<lparr>skipped := Some (length skippedFiles),
                                        totalFiles := length processedFiles,
                                        agentCount := length (team_agents t1)\<rparr>)
                           enhancements errors agentStats), t1, w1)
                 | (Failure msg ts, w1) \<Rightarrow> (TaskResult (Failure msg ts), t1, w1))))"

subsection \<open>The consolidated score as the specification words it\<close>

text \<open>The first score field that is present, in the order quality, structure, validation,
  keyword optimisation.\<close>

definition firstPresent :: "metadata \<Rightarrow> int option" where
  "firstPresent m =
     (case ragScore m of Some x \<Rightarrow> Some x | None \<Rightarrow>
      (case chunkingScore m of Some x \<Rightarrow> Some x | None \<Rightarrow>
       (case validationScore m of Some x \<Rightarrow> Some x | None \<Rightarrow> seoScore m)))"

text \<open>The score of a result: its first present score field, 75 when none is present.\<close>

definition spec_resultScore :: "metadata option \<Rightarrow> int" where
  "spec_resultScore mo =
     (case mo of
        None \<Rightarrow> 75
      | Some m \<Rightarrow> (case firstPresent m of Some x \<Rightarrow> x | None \<Rightarrow> 75))"

text \<open>The scores of the successful results.\<close>

definition spec_scores :: "agentInvocationResult list \<Rightarrow> int list" where
  "spec_scores rs =
     concat (map (\<lambda>r. case result r of
                          None \<Rightarrow> []
                        | Some res \<Rightarrow> [spec_resultScore (enhancedMetadata res)]) rs)"

text \<open>Their rounded average; 75 when there is none.\<close>

definition spec_consolidatedScore :: "agentInvocationResult list \<Rightarrow> int" where
  "spec_consolidatedScore rs =
     (let scores = spec_scores rs
      in if scores = [] then 75
         else Math_round (of_int (sum_list scores) / of_nat (length scores)))"

text \<open>A result that is failed, or is successful and carries metadata whose first present
  score field, if it has one, is positive.\<close>

definition scoredResult :: "agentInvocationResult \<Rightarrow> bool" where
  "scoredResult r =
     (case result r of
        None \<Rightarrow> True
      | Some res \<Rightarrow>
          (case enhancedMetadata res of
             None \<Rightarrow> False
           | Some m \<Rightarrow> (case firstPresent m of None \<Rightarrow> True | Some x \<Rightarrow> x > 0)))"

text \<open>The scores are small enough for the doubles of the source to add them exactly.\<close>

definition exactInDoubles :: "agentInvocationResult list \<Rightarrow> bool" where
  "exactInDoubles rs = (sum_list (spec_scores rs) < 2 ^ 51)"

text \<open>The metadata without the score fields that are 0.\<close>

definition dropZero :: "int option \<Rightarrow> int option" where
  "dropZero f = (case f of None \<Rightarrow> None | Some x \<Rightarrow> (if x = 0 then None else Some x))"

definition withoutZeros :: "metadata \<Rightarrow> metadata" where
  "withoutZeros m =
     \<lparr>ragScore = dropZero (ragScore m), chunkingScore = dropZero (chunkingScore m),
      validationScore = dropZero (validationScore m), seoScore = dropZero (seoScore m)\<rparr>"

text \<open>A result that reports no score: a failed one, one without metadata, or one whose
  metadata has none of the four fields.\<close>

definition noScore :: "agentInvocationResult \<Rightarrow> bool" where
  "noScore r =
     (case result r of
        None \<Rightarrow> True
      | Some res \<Rightarrow>
          (case enhancedMetadata res of
             None \<Rightarrow> True
           | Some m \<Rightarrow> ragScore m = None \<and> chunkingScore m = None \<and> validationScore m = None
                        \<and> seoScore m = None))"

subsection \<open>Reading the results of a batch\<close>

definition summaryOfExec :: "exec_result \<Rightarrow> summary option" where
  "summaryOfExec r = (case r of Success summ enhancements errors agentStats \<Rightarrow> Some summ
                              | Failure msg ts \<Rightarrow> None)"

definition summaryOf :: "team_result \<Rightarrow> summary option" where
  "summaryOf r = (case r of TaskResult e \<Rightarrow> summaryOfExec e | NothingToEnhance sk \<Rightarrow> None)"

text \<open>The number of skipped files that the team wrote into a summary.\<close>

definition skippedCount :: "summary \<Rightarrow> nat" where
  "skippedCount summ = (case skipped summ of None \<Rightarrow> 0 | Some n \<Rightarrow> n)"

subsection \<open>Reading the statistics\<close>

text \<open>The failure count of an agent; an agent without an entry has none.\<close>

definition failedCount :: "agent_stats \<Rightarrow> string \<Rightarrow> nat" where
  "failedCount agentStats n = (case agentStats n of None \<Rightarrow> 0 | Some s \<Rightarrow> failed s)"

subsection \<open>Reading the log of operations\<close>

text \<open>The agent invocations in a stretch of the log: who was called, and with which
  content.\<close>

fun invocations :: "core_op list \<Rightarrow> (string \<times> string) list" where
  "invocations [] = []"
| "invocations (OpInvoke n h c # ops) = (n, c) # invocations ops"
| "invocations (op # ops) = invocations ops"

text \<open>The handles with which agents were called.\<close>

fun handles :: "core_op list \<Rightarrow> fpath list" where
  "handles [] = []"
| "handles (OpInvoke n h c # ops) = h # handles ops"
| "handles (op # ops) = handles ops"

text \<open>The file that an operation of the orchestrator works on; an invocation of an agent is
  not a file operation of the orchestrator.\<close>

fun opPath :: "core_op \<Rightarrow> fpath option" where
  "opPath (OpEnsureDir p) = Some p"
| "opPath (OpWrite p c) = Some p"
| "opPath (OpRead p) = Some p"
| "opPath (OpRemove p) = Some p"
| "opPath (OpInvoke n h c) = None"

text \<open>An operation that stays in the temporary directory.\<close>

definition inTempDir :: "fpath \<Rightarrow> core_op \<Rightarrow> bool" where
  "inTempDir cwd op = (case opPath op of None \<Rightarrow> True | Some p \<Rightarrow> below (tempDir cwd) p)"

subsection \<open>Agents and file systems to run the model on\<close>

text \<open>An agent that writes its improved text to the file it is handed, as
  \<^verbatim>\<open>writeImprovedContent\<close> of the chunking agent does, and takes five milliseconds.\<close>

definition rewritingAgent :: "string \<Rightarrow> string \<Rightarrow> agent" where
  "rewritingAgent nm new =
     \<lparr>name = nm, role = ''Structure'',
      analyzeContent = (\<lambda>h c d.
        (Inr \<lparr>enhancedMetadata =
                Some \<lparr>ragScore = None, chunkingScore = Some 80, validationScore = None,
                      seoScore = None\<rparr>,
              improvements = Some [''Restructured''], content = None,
              restructuredContent = None\<rparr>,
         d\<lparr>files := (files d)(h \<mapsto> new), clock := clock d + 5\<rparr>))\<rparr>"

text \<open>An agent that reports a quality score and touches nothing.\<close>

definition quietAgent :: "string \<Rightarrow> int \<Rightarrow> agent" where
  "quietAgent nm score =
     \<lparr>name = nm, role = ''Reviewer'',
      analyzeContent = (\<lambda>h c d.
        (Inr \<lparr>enhancedMetadata =
                Some \<lparr>ragScore = Some score, chunkingScore = None, validationScore = None,
                      seoScore = None\<rparr>,
              improvements = Some [], content = None, restructuredContent = None\<rparr>, d))\<rparr>"

text \<open>The result of a successful invocation that reports the given metadata.\<close>

definition successEntry :: "string \<Rightarrow> metadata option \<Rightarrow> agentInvocationResult" where
  "successEntry nm md =
     \<lparr>agentName = nm, agentRole = ''Reviewer'',
      result = Some \<lparr>enhancedMetadata = md, improvements = Some [], content = None,
                     restructuredContent = None\<rparr>,
      error = None, processingTime = 0, contentModified = False, sequencePosition = 1\<rparr>"

text \<open>An agent that throws.\<close>

definition throwingAgent :: "string \<Rightarrow> string \<Rightarrow> agent" where
  "throwingAgent nm msg =
     \<lparr>name = nm, role = ''Broken'', analyzeContent = (\<lambda>h c d. (Inl msg, d))\<rparr>"

text \<open>An agent that deletes the file it is handed.\<close>

definition deletingAgent :: "string \<Rightarrow> agent" where
  "deletingAgent nm =
     \<lparr>name = nm, role = ''Cleaner'',
      analyzeContent = (\<lambda>h c d.
        (Inr \<lparr>enhancedMetadata = None, improvements = None, content = None,
              restructuredContent = None\<rparr>,
         d\<lparr>files := (files d)(h := None)\<rparr>))\<rparr>"

definition disk0 :: fsys where
  "disk0 = \<lparr>files = [''/w/docs/setup.md'' \<mapsto> ''# Setup''], denied = {}, clock = 0\<rparr>"

definition world0 :: world where
  "world0 = \<lparr>disk = disk0, oplog = []\<rparr>"

text \<open>The same, with a temporary directory that cannot be created.\<close>

definition world1 :: world where
  "world1 = \<lparr>disk = disk0\<lparr>denied := {''/w/.temp-agent-processing''}\<rparr>, oplog = []\<rparr>"

definition fi0 :: fileInfo where
  "fi0 = \<lparr>path = ''docs/setup.md'', title = ''Setup'', needsEnhancement = True\<rparr>"

definition fi1 :: fileInfo where
  "fi1 = \<lparr>path = ''docs/intro.md'', title = ''Intro'', needsEnhancement = False\<rparr>"

definition noPublisher :: "enhancement list \<Rightarrow> summary \<Rightarrow> githubPR" where
  "noPublisher enhancements summ = PublishFailed ''Bad credentials''"

section \<open>Properties\<close>

subsection \<open>Running the model on an example\<close>

text \<open>The equations that evaluate the model, and the congruence rules that make the
  simplifier decide a test before it looks at the branches.\<close>

lemmas eval_congs = if_weak_cong let_weak_cong sum.case_cong_weak prod.case_cong_weak option.case_cong_weak

lemmas eval_defs = initialState_def enhancementOf_def agentStep_def
  runAgentSafely_def isolatedRun_def fallbackRun_def invoke_def fs_readFile_def fs_writeFile_def
  fs_remove_def fs_ensureDir_def logged_def tempDir_def tempFilePath_def tempFileName_def
  path_join_def show_int_def sanitize_def is_alnum_def dec.simps digit_char_def below_def
  newContentOf_def differs_def updateAgentStats_def zero_stat_def Math_round_def wordCountOf_def
  is_ws_def calculateConsolidatedRAGScore_def pushedScores_def metadataScore_def js_or_def
  mockAgent_def rewritingAgent_def throwingAgent_def deletingAgent_def quietAgent_def disk0_def world0_def
  world1_def fi0_def fi1_def

lemmas eval_simps = eval_defs Let_def

subsection \<open>The loop over the agents\<close>

lemma runAgents_append:
  "runAgents cwd fp i (xs @ ys) st = runAgents cwd fp (i + length xs) ys (runAgents cwd fp i xs st)"
  by (induction xs arbitrary: i st) auto

lemma runAgents_snoc:
  "runAgents cwd fp i (xs @ [ag]) st = agentStep cwd fp (i + length xs) ag (runAgents cwd fp i xs st)"
  by (simp add: runAgents_append)

lemma runAgents_take_Suc:
  assumes "k < length ags"
  shows "runAgents cwd fp 0 (take (Suc k) ags) st
       = agentStep cwd fp k (ags ! k) (runAgents cwd fp 0 (take k ags) st)"
  using assms by (simp add: take_Suc_conv_app_nth runAgents_snoc)

lemma runAgents_split:
  assumes "k \<le> length ags"
  shows "runAgents cwd fp 0 ags st
       = runAgents cwd fp k (drop k ags) (runAgents cwd fp 0 (take k ags) st)"
proof -
  have "runAgents cwd fp 0 (take k ags @ drop k ags) st
      = runAgents cwd fp (0 + length (take k ags)) (drop k ags) (runAgents cwd fp 0 (take k ags) st)"
    by (rule runAgents_append)
  with assms show ?thesis by (simp add: min_absorb2)
qed

text \<open>Every round appends one entry, whichever way the wrapper ends.\<close>

lemma agentStep_entry:
  "\<exists>e. st_agentResults (agentStep cwd fp i ag st) = st_agentResults st @ [e]
       \<and> sequencePosition e = i + 1 \<and> agentName e = name ag \<and> \<not> contentModified e"
  by (auto simp: agentStep_def Let_def split: prod.splits sum.splits)

lemma runAgents_entries:
  "\<exists>es. st_agentResults (runAgents cwd fp i ags st) = st_agentResults st @ es
        \<and> map sequencePosition es = [i + 1 ..< i + 1 + length ags]
        \<and> map agentName es = map name ags
        \<and> list_all (\<lambda>e. \<not> contentModified e) es"
proof (induction ags arbitrary: i st)
  case Nil
  show ?case by simp
next
  case (Cons ag ags)
  obtain e where e: "st_agentResults (agentStep cwd fp i ag st) = st_agentResults st @ [e]"
      "sequencePosition e = i + 1" "agentName e = name ag" "\<not> contentModified e"
    using agentStep_entry by blast
  obtain es where es:
      "st_agentResults (runAgents cwd fp (i + 1) ags (agentStep cwd fp i ag st))
        = st_agentResults (agentStep cwd fp i ag st) @ es"
      "map sequencePosition es = [i + 1 + 1 ..< i + 1 + 1 + length ags]"
      "map agentName es = map name ags" "list_all (\<lambda>e. \<not> contentModified e) es"
    using Cons.IH by blast
  have "[i + 1 ..< i + 1 + length (ag # ags)] = (i + 1) # [i + 1 + 1 ..< i + 1 + 1 + length ags]"
    by (simp add: upt_rec)
  with e es show ?case
    by (intro exI[of _ "e # es"]) simp
qed

subsection \<open>A document that can be read is always enhanced\<close>

lemma pFS_read:
  "fs_readFile (path_join cwd (path fi)) w = (Inr orig, w1) \<Longrightarrow>
   processFileSequentially cwd agents fi agentStats w =
     (Inr (enhancementOf (path_join cwd (path fi)) fi orig
             (runAgents cwd (path_join cwd (path fi)) 0 agents (initialState w1 agentStats orig))),
      st_agentStats (runAgents cwd (path_join cwd (path fi)) 0 agents (initialState w1 agentStats orig)),
      st_world (runAgents cwd (path_join cwd (path fi)) 0 agents (initialState w1 agentStats orig)))"
  by (simp add: processFileSequentially_def Let_def)

lemma pFS_Inr:
  assumes "processFileSequentially cwd agents fi agentStats w = (Inr enh, stats', w')"
  obtains orig w1 where "fs_readFile (path_join cwd (path fi)) w = (Inr orig, w1)"
    and "enh = enhancementOf (path_join cwd (path fi)) fi orig
             (runAgents cwd (path_join cwd (path fi)) 0 agents (initialState w1 agentStats orig))"
  using assms by (auto simp: processFileSequentially_def Let_def split: prod.splits sum.splits)

text \<open>The document of the examples can be read.\<close>

lemma read_setup:
  "fs_readFile (path_join ''/w'' (path fi0)) world0
     = (Inr ''# Setup'', logged (OpRead ''/w/docs/setup.md'') world0)"
  by (simp add: fs_readFile_def path_join_def fi0_def world0_def disk0_def)

subsection \<open>One result per agent\<close>

text \<open>
  Claim C7. For every document that is processed, the list of agent invocation results has
  exactly one entry for each configured agent, however many of the invocations failed:
  it is as long as the agent list, entry \<open>k\<close> carries the sequence position \<open>k + 1\<close> and
  the name of agent \<open>k\<close>.
\<close>

theorem one_result_per_agent:
  assumes "processFileSequentially cwd agents fi agentStats w = (Inr enh, stats', w')"
  shows "length (agentResults enh) = length agents
       \<and> map sequencePosition (agentResults enh) = [1 ..< length agents + 1]
       \<and> map agentName (agentResults enh) = map name agents"
proof -
  obtain orig w1 where enh: "enh = enhancementOf (path_join cwd (path fi)) fi orig
             (runAgents cwd (path_join cwd (path fi)) 0 agents (initialState w1 agentStats orig))"
    using assms by (rule pFS_Inr)
  obtain es where es:
     "st_agentResults (runAgents cwd (path_join cwd (path fi)) 0 agents (initialState w1 agentStats orig))
       = st_agentResults (initialState w1 agentStats orig) @ es"
     "map sequencePosition es = [0 + 1 ..< 0 + 1 + length agents]" "map agentName es = map name agents"
    using runAgents_entries by blast
  have len: "length es = length agents" using es(3) by (metis length_map)
  from es len show ?thesis
    by (simp add: enh enhancementOf_def initialState_def)
qed

text \<open>Three agents, the second of which throws: three results, at positions 1, 2, 3.\<close>

theorem one_result_per_agent_witness:
  "\<exists>enh stats' w'.
     processFileSequentially ''/w''
       [mockAgent, throwingAgent ''B'' ''boom'', rewritingAgent ''C'' ''new text'']
       fi0 Map.empty world0 = (Inr enh, stats', w')
     \<and> length (agentResults enh) = 3
     \<and> map sequencePosition (agentResults enh) = [1, 2, 3]
     \<and> map agentName (agentResults enh) = [''mock-agent'', ''B'', ''C'']"
proof -
  obtain enh stats' w' where run:
    "processFileSequentially ''/w''
       [mockAgent, throwingAgent ''B'' ''boom'', rewritingAgent ''C'' ''new text'']
       fi0 Map.empty world0 = (Inr enh, stats', w')"
    using pFS_read [OF read_setup] by blast
  have "[1 ..< length [mockAgent, throwingAgent ''B'' ''boom'', rewritingAgent ''C'' ''new text''] + 1]
      = [1, 2, 3::nat]"
    by (simp add: upt_rec)
  with one_result_per_agent [OF run] run show ?thesis
    by (simp add: mockAgent_def throwingAgent_def rewritingAgent_def)
qed

subsection \<open>The content-modified flag\<close>

text \<open>
  Claim C10. In every agent invocation result of a document the content-modified flag is
  false, also in the result of an agent whose content differed from what it received: the
  flag compares the new content with the current content after the current content has
  been advanced to it. A change of content shows in the content snapshots only.
\<close>

theorem contentModified_never_set:
  assumes "processFileSequentially cwd agents fi agentStats w = (Inr enh, stats', w')"
  shows "list_all (\<lambda>r. \<not> contentModified r) (agentResults enh)"
proof -
  obtain orig w1 where enh: "enh = enhancementOf (path_join cwd (path fi)) fi orig
             (runAgents cwd (path_join cwd (path fi)) 0 agents (initialState w1 agentStats orig))"
    using assms by (rule pFS_Inr)
  obtain es where es:
     "st_agentResults (runAgents cwd (path_join cwd (path fi)) 0 agents (initialState w1 agentStats orig))
       = st_agentResults (initialState w1 agentStats orig) @ es"
     "list_all (\<lambda>e. \<not> contentModified e) es"
    using runAgents_entries by blast
  from es show ?thesis
    by (simp add: enh enhancementOf_def initialState_def)
qed

text \<open>An agent that rewrites its working copy: a snapshot is appended, the flag stays
  false.\<close>

lemma run_rewriter_evolution:
  "st_contentEvolution (runAgents ''/w'' (path_join ''/w'' (path fi0)) 0 [rewritingAgent ''B'' ''new text'']
      (initialState (logged (OpRead ''/w/docs/setup.md'') world0) Map.empty ''# Setup''))
   = [\<lparr>stage = ''original'', snap_content = ''# Setup'', wordCount = None\<rparr>,
      \<lparr>stage = ''B'', snap_content = ''new text'', wordCount = Some 2\<rparr>]"
  by (simp add: eval_defs Let_def cong: eval_congs)

theorem contentModified_never_set_witness:
  "\<exists>enh stats' w'.
     processFileSequentially ''/w'' [rewritingAgent ''B'' ''new text''] fi0 Map.empty world0
       = (Inr enh, stats', w')
     \<and> list_all (\<lambda>r. \<not> contentModified r) (agentResults enh)
     \<and> map stage (contentEvolution enh) = [''original'', ''B'']"
proof -
  obtain enh stats' w' where
    run: "processFileSequentially ''/w'' [rewritingAgent ''B'' ''new text''] fi0 Map.empty world0
       = (Inr enh, stats', w')" and
    enh: "enh = enhancementOf (path_join ''/w'' (path fi0)) fi0 ''# Setup''
             (runAgents ''/w'' (path_join ''/w'' (path fi0)) 0 [rewritingAgent ''B'' ''new text'']
                (initialState (logged (OpRead ''/w/docs/setup.md'') world0) Map.empty ''# Setup''))"
    by (rule that [OF pFS_read [OF read_setup] refl])
  have "map stage (contentEvolution enh) = [''original'', ''B'']"
    unfolding enh by (simp add: enhancementOf_def run_rewriter_evolution del: runAgents.simps)
  with contentModified_never_set [OF run] run show ?thesis
    by (intro exI [of _ enh] exI [of _ stats'] exI [of _ w']) simp
qed

subsection \<open>An agent that fails\<close>

lemma failedCount_update:
  "failedCount (updateAgentStats agentStats n False t) n = failedCount agentStats n + 1"
  by (simp add: failedCount_def updateAgentStats_def zero_stat_def split: option.splits)

lemma agentStep_throws:
  assumes "runAgentSafely cwd ag fp (st_currentContent st) (st_world st) = (Inl msg, w2)"
  shows "agentStep cwd fp i ag st =
     st\<lparr>st_world := w2,
        st_agentStats := updateAgentStats (st_agentStats st) (name ag) False 0,
        st_agentResults := st_agentResults st @
          [\<lparr>agentName = name ag, agentRole = role ag, result = None, error = Some msg,
            processingTime = 0, contentModified = False, sequencePosition = i + 1\<rparr>]\<rparr>"
  using assms by (simp add: agentStep_def)

lemma runAgents_results_length:
  "length (st_agentResults (runAgents cwd fp i ags st)) = length (st_agentResults st) + length ags"
proof -
  obtain es where "st_agentResults (runAgents cwd fp i ags st) = st_agentResults st @ es"
     "map agentName es = map name ags"
    using runAgents_entries by blast
  then show ?thesis by (metis length_append length_map)
qed

lemma runAgents_results_prefix:
  "take (length (st_agentResults st)) (st_agentResults (runAgents cwd fp i ags st)) = st_agentResults st"
proof -
  obtain es where "st_agentResults (runAgents cwd fp i ags st) = st_agentResults st @ es"
    using runAgents_entries by blast
  then show ?thesis by simp
qed

text \<open>
  Claim C1. When the wrapper throws for agent \<open>k\<close> of a document that could be read, the
  orchestrator records a failed result for that agent (no payload, the message thrown, no
  duration, position \<open>k + 1\<close>), adds one to the failure count of that agent, leaves the
  current content and the snapshots as they were and runs the remaining agents from
  there; the document is returned as an enhancement with one result for each agent.
\<close>

theorem agent_failure_is_recorded:
  assumes read: "fs_readFile (path_join cwd (path fi)) w = (Inr orig, w1)"
    and k: "k < length agents"
    and before: "before = runAgents cwd (path_join cwd (path fi)) 0 (take k agents)
                            (initialState w1 agentStats orig)"
    and throws: "runAgentSafely cwd (agents ! k) (path_join cwd (path fi))
                   (st_currentContent before) (st_world before) = (Inl msg, w2)"
    and after: "after = agentStep cwd (path_join cwd (path fi)) k (agents ! k) before"
  shows "\<exists>enh stats' w'.
       processFileSequentially cwd agents fi agentStats w = (Inr enh, stats', w')
     \<and> length (agentResults enh) = length agents
     \<and> agentResults enh ! k =
         \<lparr>agentName = name (agents ! k), agentRole = role (agents ! k), result = None,
          error = Some msg, processingTime = 0, contentModified = False,
          sequencePosition = k + 1\<rparr>
     \<and> failedCount (st_agentStats after) (name (agents ! k))
         = failedCount (st_agentStats before) (name (agents ! k)) + 1
     \<and> st_currentContent after = st_currentContent before
     \<and> st_contentEvolution after = st_contentEvolution before
     \<and> agentResults enh
         = st_agentResults (runAgents cwd (path_join cwd (path fi)) (Suc k) (drop (Suc k) agents) after)
     \<and> finalContent enh
         = st_currentContent (runAgents cwd (path_join cwd (path fi)) (Suc k) (drop (Suc k) agents) after)"
proof -
  let ?fp = "path_join cwd (path fi)"
  let ?init = "initialState w1 agentStats orig"
  let ?final = "runAgents cwd ?fp 0 agents ?init"
  let ?failed = "\<lparr>agentName = name (agents ! k), agentRole = role (agents ! k), result = None,
          error = Some msg, processingTime = 0, contentModified = False,
          sequencePosition = k + 1\<rparr>"
  have step: "after = before\<lparr>st_world := w2,
        st_agentStats := updateAgentStats (st_agentStats before) (name (agents ! k)) False 0,
        st_agentResults := st_agentResults before @ [?failed]\<rparr>"
    unfolding after by (rule agentStep_throws [OF throws])
  have after_eq: "after = runAgents cwd ?fp 0 (take (Suc k) agents) ?init"
    unfolding after before by (rule runAgents_take_Suc [OF k, symmetric])
  have final: "?final = runAgents cwd ?fp (Suc k) (drop (Suc k) agents) after"
    unfolding after_eq using k by (intro runAgents_split) simp
  have len_before: "length (st_agentResults before) = k"
    unfolding before using k by (simp add: runAgents_results_length initialState_def min_absorb2)
  have len_after: "length (st_agentResults after) = Suc k"
    using len_before by (simp add: step)
  have "take (Suc k) (st_agentResults ?final) = st_agentResults after"
    unfolding final using runAgents_results_prefix [of after] len_after by simp
  moreover have "k < Suc k" by simp
  ultimately have "st_agentResults ?final ! k = st_agentResults after ! k"
    by (metis nth_take)
  moreover have "(st_agentResults before @ [?failed]) ! length (st_agentResults before) = ?failed"
    by (rule nth_append_length)
  ultimately have nth: "st_agentResults ?final ! k = ?failed"
    unfolding len_before by (simp add: step)
  have len: "length (st_agentResults ?final) = length agents"
    by (simp add: runAgents_results_length initialState_def)
  have fc: "failedCount (st_agentStats after) (name (agents ! k))
         = failedCount (st_agentStats before) (name (agents ! k)) + 1"
    by (simp add: step failedCount_update)
  have run: "processFileSequentially cwd agents fi agentStats w =
      (Inr (enhancementOf ?fp fi orig ?final), st_agentStats ?final, st_world ?final)"
    by (rule pFS_read [OF read])
  have "length (agentResults (enhancementOf ?fp fi orig ?final)) = length agents"
    using len by (simp add: enhancementOf_def)
  moreover have "agentResults (enhancementOf ?fp fi orig ?final) ! k = ?failed"
    using nth by (simp add: enhancementOf_def)
  moreover have "agentResults (enhancementOf ?fp fi orig ?final)
         = st_agentResults (runAgents cwd ?fp (Suc k) (drop (Suc k) agents) after)"
    using final by (simp add: enhancementOf_def)
  moreover have "finalContent (enhancementOf ?fp fi orig ?final)
         = st_currentContent (runAgents cwd ?fp (Suc k) (drop (Suc k) agents) after)"
    using final by (simp add: enhancementOf_def)
  moreover have "st_currentContent after = st_currentContent before"
      "st_contentEvolution after = st_contentEvolution before"
    by (simp_all add: step)
  ultimately show ?thesis using run fc by blast
qed


text \<open>Agents A, B, C of which B throws: the document is enhanced, B's result is marked
  failed, the results of A and C are there.\<close>

lemma run_ABC_results:
  "map (\<lambda>r. (agentName r, result r = None, error r))
     (st_agentResults (runAgents ''/w'' (path_join ''/w'' (path fi0)) 0
        [mockAgent, throwingAgent ''B'' ''boom'', rewritingAgent ''C'' ''new text'']
        (initialState (logged (OpRead ''/w/docs/setup.md'') world0) Map.empty ''# Setup'')))
   = [(''mock-agent'', False, None), (''B'', True, Some ''Agent B failed: boom''), (''C'', False, None)]"
  by (simp add: eval_defs Let_def cong: eval_congs)

lemma run_A_then_B_throws:
  "fst (runAgentSafely ''/w'' (throwingAgent ''B'' ''boom'') (path_join ''/w'' (path fi0))
     (st_currentContent (runAgents ''/w'' (path_join ''/w'' (path fi0)) 0 [mockAgent]
        (initialState (logged (OpRead ''/w/docs/setup.md'') world0) Map.empty ''# Setup'')))
     (st_world (runAgents ''/w'' (path_join ''/w'' (path fi0)) 0 [mockAgent]
        (initialState (logged (OpRead ''/w/docs/setup.md'') world0) Map.empty ''# Setup''))))
   = Inl ''Agent B failed: boom''"
  by (simp add: eval_defs Let_def cong: eval_congs)

theorem agent_failure_is_recorded_witness:
  "\<exists>enh stats' w'.
     processFileSequentially ''/w''
       [mockAgent, throwingAgent ''B'' ''boom'', rewritingAgent ''C'' ''new text'']
       fi0 Map.empty world0 = (Inr enh, stats', w')
     \<and> length (agentResults enh) = 3
     \<and> agentResults enh ! 1 =
         \<lparr>agentName = ''B'', agentRole = ''Broken'', result = None,
          error = Some ''Agent B failed: boom'', processingTime = 0, contentModified = False,
          sequencePosition = 2\<rparr>
     \<and> map (\<lambda>r. (agentName r, result r = None, error r)) (agentResults enh)
         = [(''mock-agent'', False, None), (''B'', True, Some ''Agent B failed: boom''),
            (''C'', False, None)]"
proof -
  let ?ags = "[mockAgent, throwingAgent ''B'' ''boom'', rewritingAgent ''C'' ''new text'']"
  let ?fp = "path_join ''/w'' (path fi0)"
  let ?init = "initialState (logged (OpRead ''/w/docs/setup.md'') world0) Map.empty ''# Setup''"
  let ?before = "runAgents ''/w'' ?fp 0 (take 1 ?ags) ?init"
  have k: "(1::nat) < length ?ags" by simp
  have throws: "runAgentSafely ''/w'' (?ags ! 1) ?fp (st_currentContent ?before) (st_world ?before)
      = (Inl ''Agent B failed: boom'',
         snd (runAgentSafely ''/w'' (?ags ! 1) ?fp (st_currentContent ?before) (st_world ?before)))"
    using run_A_then_B_throws by (simp add: prod_eq_iff del: runAgents.simps)
  obtain enh stats' w' where
    run: "processFileSequentially ''/w'' ?ags fi0 Map.empty world0 = (Inr enh, stats', w')" and
    len: "length (agentResults enh) = length ?ags" and
    nth: "agentResults enh ! 1 =
         \<lparr>agentName = name (?ags ! 1), agentRole = role (?ags ! 1), result = None,
          error = Some ''Agent B failed: boom'', processingTime = 0, contentModified = False,
          sequencePosition = 1 + 1\<rparr>"
    using agent_failure_is_recorded [OF read_setup k refl throws refl] by blast
  have enh: "enh = enhancementOf ?fp fi0 ''# Setup'' (runAgents ''/w'' ?fp 0 ?ags ?init)"
    using run pFS_read [OF read_setup, of ?ags Map.empty] by simp
  have all: "map (\<lambda>r. (agentName r, result r = None, error r)) (agentResults enh)
         = [(''mock-agent'', False, None), (''B'', True, Some ''Agent B failed: boom''),
            (''C'', False, None)]"
    unfolding enh by (simp add: enhancementOf_def run_ABC_results del: runAgents.simps)
  from run len nth all show ?thesis
    by (intro exI [of _ enh] exI [of _ stats'] exI [of _ w']) (simp add: throwingAgent_def)
qed


subsection \<open>The content that the wrapper returns\<close>

lemma isolatedRun_content:
  assumes "isolatedRun cwd ag c w = (Inr r, w')"
  shows "tempDir cwd \<notin> denied (disk w) \<and> tempFilePath cwd ag (clock (disk w)) \<notin> denied (disk w)
     \<and> (\<exists>res d3. analyzeContent ag (tempFilePath cwd ag (clock (disk w))) c
            ((disk w)\<lparr>files := (files (disk w))(tempFilePath cwd ag (clock (disk w)) \<mapsto> c)\<rparr>) = (Inr res, d3)
          \<and> content r = Some (if tempFilePath cwd ag (clock (disk w)) \<in> denied d3 then c
                               else case files d3 (tempFilePath cwd ag (clock (disk w))) of None \<Rightarrow> c | Some t \<Rightarrow> t))"
  using assms
  by (auto simp: isolatedRun_def invoke_def fs_ensureDir_def fs_writeFile_def fs_readFile_def
        logged_def Let_def
      split: prod.split_asm sum.split_asm if_split_asm option.split_asm
      split del: if_split)

lemma fallbackRun_content:
  assumes "fallbackRun cwd ag fp c w = (Inr r, w')"
  shows "content r = Some c"
  using assms
  by (auto simp: fallbackRun_def Let_def split: prod.splits sum.splits)


text \<open>
  Claim C4. When \<^verbatim>\<open>runAgentSafely\<close> returns, the content of its result is the content it
  was called with, unless the wrapper could set the working copy up, the agent returned
  from its run on the working copy, and the working copy could be read back and held that
  other content. In particular the content is the input content on the fallback path, and
  when the working copy cannot be read back after the agent has returned.
\<close>

theorem wrapper_returns_input_content:
  assumes ret: "runAgentSafely cwd ag fp c w = (Inr r, w')"
  shows "(content r = Some c \<or>
          (tempDir cwd \<notin> denied (disk w) \<and> tempFilePath cwd ag (clock (disk w)) \<notin> denied (disk w)
           \<and> (\<exists>res d3.
                 analyzeContent ag (tempFilePath cwd ag (clock (disk w))) c
                   ((disk w)\<lparr>files := (files (disk w))(tempFilePath cwd ag (clock (disk w)) \<mapsto> c)\<rparr>)
                   = (Inr res, d3)
                 \<and> tempFilePath cwd ag (clock (disk w)) \<notin> denied d3
                 \<and> files d3 (tempFilePath cwd ag (clock (disk w))) = content r)))
       \<and> (isl (fst (isolatedRun cwd ag c w)) \<longrightarrow> content r = Some c)
       \<and> (\<forall>res d3.
             analyzeContent ag (tempFilePath cwd ag (clock (disk w))) c
               ((disk w)\<lparr>files := (files (disk w))(tempFilePath cwd ag (clock (disk w)) \<mapsto> c)\<rparr>)
               = (Inr res, d3)
             \<and> (tempFilePath cwd ag (clock (disk w)) \<in> denied d3
                  \<or> files d3 (tempFilePath cwd ag (clock (disk w))) = None)
             \<longrightarrow> content r = Some c)"
proof (cases "isolatedRun cwd ag c w")
  case (Pair out w1)
  show ?thesis
  proof (cases out)
    case (Inl e)
    with Pair ret have "fallbackRun cwd ag fp c w1 = (Inr r, w')"
      by (simp add: runAgentSafely_def)
    then have "content r = Some c" by (rule fallbackRun_content)
    then show ?thesis by simp
  next
    case (Inr r1)
    with Pair ret have iso: "isolatedRun cwd ag c w = (Inr r, w')"
      by (simp add: runAgentSafely_def)
    from isolatedRun_content [OF iso] iso show ?thesis
      by (auto split: option.splits if_splits)
  qed
qed


text \<open>An agent that deletes its working copy, and a temporary directory that cannot be
  created: the content comes back as it went in.\<close>

theorem wrapper_returns_input_content_witness:
  "(\<exists>r w'. runAgentSafely ''/w'' (deletingAgent ''D'') ''/w/docs/setup.md'' ''abc'' world0 = (Inr r, w')
           \<and> content r = Some ''abc'')
   \<and> (\<exists>r w'. runAgentSafely ''/w'' mockAgent ''/w/docs/setup.md'' ''abc'' world1 = (Inr r, w')
           \<and> content r = Some ''abc'')"
proof
  let ?tmp = "tempFilePath ''/w'' (deletingAgent ''D'') (clock (disk world0))"
  have "\<not> isl (fst (runAgentSafely ''/w'' (deletingAgent ''D'') ''/w/docs/setup.md'' ''abc'' world0))"
    by (simp add: eval_simps cong: eval_congs)
  then obtain r w' where
    ret: "runAgentSafely ''/w'' (deletingAgent ''D'') ''/w/docs/setup.md'' ''abc'' world0 = (Inr r, w')"
    by (cases "runAgentSafely ''/w'' (deletingAgent ''D'') ''/w/docs/setup.md'' ''abc'' world0";
        cases "fst (runAgentSafely ''/w'' (deletingAgent ''D'') ''/w/docs/setup.md'' ''abc'' world0)") auto
  have gone: "analyzeContent (deletingAgent ''D'') ?tmp ''abc''
        ((disk world0)\<lparr>files := (files (disk world0))(?tmp \<mapsto> ''abc'')\<rparr>)
      = (Inr \<lparr>enhancedMetadata = None, improvements = None, content = None, restructuredContent = None\<rparr>,
         (disk world0)\<lparr>files := (files (disk world0))(?tmp := None)\<rparr>)"
    by (simp add: deletingAgent_def)
  have "files ((disk world0)\<lparr>files := (files (disk world0))(?tmp := None)\<rparr>) ?tmp = None"
    by simp
  with wrapper_returns_input_content [OF ret] gone have "content r = Some ''abc''"
    by blast
  with ret show "\<exists>r w'. runAgentSafely ''/w'' (deletingAgent ''D'') ''/w/docs/setup.md'' ''abc'' world0 = (Inr r, w')
           \<and> content r = Some ''abc''"
    by (intro exI [of _ r] exI [of _ w']) simp
next
  have "\<not> isl (fst (runAgentSafely ''/w'' mockAgent ''/w/docs/setup.md'' ''abc'' world1))"
    by (simp add: eval_simps cong: eval_congs)
  then obtain r w' where
    ret: "runAgentSafely ''/w'' mockAgent ''/w/docs/setup.md'' ''abc'' world1 = (Inr r, w')"
    by (cases "runAgentSafely ''/w'' mockAgent ''/w/docs/setup.md'' ''abc'' world1";
        cases "fst (runAgentSafely ''/w'' mockAgent ''/w/docs/setup.md'' ''abc'' world1)") auto
  have "isl (fst (isolatedRun ''/w'' mockAgent ''abc'' world1))"
    by (simp add: eval_simps cong: eval_congs)
  with wrapper_returns_input_content [OF ret] have "content r = Some ''abc''"
    by blast
  with ret show "\<exists>r w'. runAgentSafely ''/w'' mockAgent ''/w/docs/setup.md'' ''abc'' world1 = (Inr r, w')
           \<and> content r = Some ''abc''"
    by (intro exI [of _ r] exI [of _ w']) simp
qed

subsection \<open>The fallback of the wrapper\<close>

text \<open>
  Claim C5. When the set-up of the working copy fails, the wrapper calls the agent once
  more, directly, with the content it was given and never against the authoritative
  store, and returns that result; when this call fails too, it throws one error that
  names the agent.

  The code calls the agent once, with the content it was given, but with the path of the
  document itself as the file to work on. Here the temporary directory cannot be created
  and the agent writes its text to the file it is handed, as the chunking agent does: the
  one call of the agent has the document as its handle, and the document on disk is
  overwritten.
\<close>

theorem fallback_hands_over_the_document:
  "handles (oplog (snd (runAgentSafely ''/w'' (rewritingAgent ''B'' ''new text'')
                          ''/w/docs/setup.md'' ''# Setup'' world1)))
     = [''/w/docs/setup.md'']
   \<and> files (disk world1) ''/w/docs/setup.md'' = Some ''# Setup''
   \<and> files (disk (snd (runAgentSafely ''/w'' (rewritingAgent ''B'' ''new text'')
                          ''/w/docs/setup.md'' ''# Setup'' world1))) ''/w/docs/setup.md''
     = Some ''new text''"
  by (simp add: eval_simps cong: eval_congs)

subsection \<open>Content threading and the content snapshots\<close>

lemma invocations_append: "invocations (xs @ ys) = invocations xs @ invocations ys"
  by (induction xs rule: invocations.induct) auto

lemma oplog_ensureDir: "oplog (snd (fs_ensureDir p w)) = oplog w @ [OpEnsureDir p]"
  by (simp add: fs_ensureDir_def logged_def)
lemma oplog_writeFile: "oplog (snd (fs_writeFile p c w)) = oplog w @ [OpWrite p c]"
  by (simp add: fs_writeFile_def logged_def)
lemma oplog_readFile: "oplog (snd (fs_readFile p w)) = oplog w @ [OpRead p]"
  by (simp add: fs_readFile_def logged_def split: option.splits)
lemma oplog_remove: "oplog (snd (fs_remove p w)) = oplog w @ [OpRemove p]"
  by (simp add: fs_remove_def logged_def)
lemma oplog_invoke: "oplog (snd (invoke ag h c w)) = oplog w @ [OpInvoke (name ag) h c]"
  by (simp add: invoke_def logged_def split: prod.splits)

lemmas oplog_prims = oplog_ensureDir oplog_writeFile oplog_readFile oplog_remove oplog_invoke

lemma below_tempFilePath: "below (tempDir cwd) (tempFilePath cwd ag now)"
  by (simp add: below_def tempFilePath_def path_join_def)

lemma inTempDir_simps:
  "inTempDir cwd (OpEnsureDir (tempDir cwd))"
  "inTempDir cwd (OpRemove (tempDir cwd))"
  "inTempDir cwd (OpWrite (tempFilePath cwd ag now) c)"
  "inTempDir cwd (OpRead (tempFilePath cwd ag now))"
  "inTempDir cwd (OpRemove (tempFilePath cwd ag now))"
  "inTempDir cwd (OpInvoke n h c)"
  by (simp_all add: inTempDir_def below_tempFilePath) (simp_all add: below_def)

lemma isolatedRun_oplog:
  "\<exists>ops. oplog (snd (isolatedRun cwd ag c w)) = oplog w @ ops
      \<and> set (invocations ops) \<subseteq> {(name ag, c)}
      \<and> (\<not> isl (fst (isolatedRun cwd ag c w)) \<longrightarrow> invocations ops \<noteq> [])
      \<and> list_all (inTempDir cwd) ops"
proof (cases "fs_ensureDir (tempDir cwd) w")
  case (Pair r1 w1)
  note [simp] = inTempDir_simps
  have o1: "oplog w1 = oplog w @ [OpEnsureDir (tempDir cwd)]"
    using oplog_ensureDir [of "tempDir cwd" w] Pair by simp
  show ?thesis
  proof (cases r1)
    case (Inl e)
    with Pair o1 show ?thesis by (simp add: isolatedRun_def)
  next
    case (Inr u)
    let ?tmp = "tempFilePath cwd ag (clock (disk w1))"
    obtain r2 w2 where wr: "fs_writeFile ?tmp c w1 = (r2, w2)" by (cases "fs_writeFile ?tmp c w1")
    have o2: "oplog w2 = oplog w1 @ [OpWrite ?tmp c]"
      using oplog_writeFile [of ?tmp c w1] wr by simp
    show ?thesis
    proof (cases r2)
      case (Inl e)
      with Pair Inr wr o1 o2 show ?thesis by (simp add: isolatedRun_def Let_def)
    next
      case r2: (Inr u2)
      obtain r3 w3 where inv: "invoke ag ?tmp c w2 = (r3, w3)" by (cases "invoke ag ?tmp c w2")
      have o3: "oplog w3 = oplog w2 @ [OpInvoke (name ag) ?tmp c]"
        using oplog_invoke [of ag ?tmp c w2] inv by simp
      show ?thesis
      proof (cases r3)
        case (Inl e)
        with Pair Inr wr r2 inv o1 o2 o3 show ?thesis by (simp add: isolatedRun_def Let_def)
      next
        case r3: (Inr res)
        obtain rd w4 where rdf: "fs_readFile ?tmp w3 = (rd, w4)" by (cases "fs_readFile ?tmp w3")
        have o4: "oplog w4 = oplog w3 @ [OpRead ?tmp]"
          using oplog_readFile [of ?tmp w3] rdf by simp
        have o5: "oplog (snd (fs_remove ?tmp w4)) = oplog w4 @ [OpRemove ?tmp]"
          by (rule oplog_remove)
        from Pair Inr wr r2 inv r3 rdf o1 o2 o3 o4 o5 show ?thesis
          by (simp add: isolatedRun_def Let_def)
      qed
    qed
  qed
qed

lemma fallbackRun_oplog:
  "oplog (snd (fallbackRun cwd ag fp c w))
     = oplog w @ [OpRemove (tempDir cwd), OpInvoke (name ag) fp c]"
proof -
  obtain r w2 where inv: "invoke ag fp c (snd (fs_remove (tempDir cwd) w)) = (r, w2)"
    by (cases "invoke ag fp c (snd (fs_remove (tempDir cwd) w))")
  have "oplog w2 = oplog (snd (fs_remove (tempDir cwd) w)) @ [OpInvoke (name ag) fp c]"
    using oplog_invoke [of ag fp c "snd (fs_remove (tempDir cwd) w)"] inv by simp
  then have "oplog w2 = oplog w @ [OpRemove (tempDir cwd), OpInvoke (name ag) fp c]"
    by (simp add: oplog_remove)
  with inv show ?thesis
    by (cases r) (simp_all add: fallbackRun_def Let_def)
qed

lemma runAgentSafely_invocations:
  "take (length (oplog w)) (oplog (snd (runAgentSafely cwd ag fp c w))) = oplog w
   \<and> set (invocations (drop (length (oplog w)) (oplog (snd (runAgentSafely cwd ag fp c w)))))
       = {(name ag, c)}"
proof -
  obtain ops where ops: "oplog (snd (isolatedRun cwd ag c w)) = oplog w @ ops"
      "set (invocations ops) \<subseteq> {(name ag, c)}"
      "\<not> isl (fst (isolatedRun cwd ag c w)) \<longrightarrow> invocations ops \<noteq> []"
    using isolatedRun_oplog by blast
  obtain out w1 where iso: "isolatedRun cwd ag c w = (out, w1)" by (cases "isolatedRun cwd ag c w")
  show ?thesis
  proof (cases out)
    case (Inl e)
    have "oplog (snd (runAgentSafely cwd ag fp c w))
        = oplog w @ ops @ [OpRemove (tempDir cwd), OpInvoke (name ag) fp c]"
      using iso Inl ops(1) fallbackRun_oplog [of cwd ag fp c w1]
      by (simp add: runAgentSafely_def)
    with ops(2) show ?thesis by (auto simp: invocations_append)
  next
    case (Inr r)
    have "oplog (snd (runAgentSafely cwd ag fp c w)) = oplog w @ ops"
      using iso Inr ops(1) by (simp add: runAgentSafely_def)
    moreover have "invocations ops \<noteq> []" using ops(3) iso Inr by simp
    then have "set (invocations ops) \<noteq> {}" by simp
    with ops(2) have "set (invocations ops) = {(name ag, c)}"
      by (simp add: subset_singleton_iff)
    ultimately show ?thesis by simp
  qed
qed

lemma agentStep_world:
  "st_world (agentStep cwd fp i ag st)
     = snd (runAgentSafely cwd ag fp (st_currentContent st) (st_world st))"
  by (simp add: agentStep_def Let_def split: prod.splits sum.splits)

lemma agentStep_content:
  "st_currentContent (agentStep cwd fp i ag st)
     = (case fst (runAgentSafely cwd ag fp (st_currentContent st) (st_world st)) of
          Inr res \<Rightarrow> newContentOf res (st_currentContent st)
        | Inl e \<Rightarrow> st_currentContent st)"
  by (simp add: agentStep_def Let_def split: prod.splits sum.splits)

lemma agentStep_evolution:
  "st_contentEvolution (agentStep cwd fp i ag st)
     = st_contentEvolution st @
       (if st_currentContent (agentStep cwd fp i ag st) \<noteq> st_currentContent st
        then [\<lparr>stage = name ag, snap_content = st_currentContent (agentStep cwd fp i ag st),
               wordCount = Some (wordCountOf (st_currentContent (agentStep cwd fp i ag st)))\<rparr>]
        else [])"
  by (simp add: agentStep_def Let_def split: prod.splits sum.splits)

lemma stages_closed_form:
  assumes "k \<le> length agents"
  shows "map stage (st_contentEvolution (runAgents cwd fp 0 (take k agents) (initialState w1 agentStats orig)))
       = ''original'' #
         map (\<lambda>j. name (agents ! j))
           (filter (\<lambda>j. st_currentContent (runAgents cwd fp 0 (take (Suc j) agents) (initialState w1 agentStats orig))
                       \<noteq> st_currentContent (runAgents cwd fp 0 (take j agents) (initialState w1 agentStats orig)))
              [0 ..< k])"
  using assms
proof (induction k)
  case 0
  show ?case by (simp add: initialState_def)
next
  case (Suc k)
  then have k: "k < length agents" by simp
  have IH: "map stage (st_contentEvolution (runAgents cwd fp 0 (take k agents) (initialState w1 agentStats orig)))
       = ''original'' #
         map (\<lambda>j. name (agents ! j))
           (filter (\<lambda>j. st_currentContent (runAgents cwd fp 0 (take (Suc j) agents) (initialState w1 agentStats orig))
                       \<noteq> st_currentContent (runAgents cwd fp 0 (take j agents) (initialState w1 agentStats orig)))
              [0 ..< k])"
    using Suc by simp
  show ?case
    unfolding runAgents_take_Suc [OF k] agentStep_evolution
    using IH by (simp add: runAgents_take_Suc [OF k])
qed

text \<open>
  Claim C2, as the code has it. Agent \<open>k\<close> is invoked with the current content and with
  nothing else: the content the document was read with for the first agent, then the
  content left by the round before. The current content after the round is what the
  orchestrator takes from the result: the content of the result when it is not empty and
  differs from the current content, else its restructured content when that is not empty
  and differs, else the current content; a failed agent leaves it as it is. The snapshots
  start with the entry \<open>original\<close> and gain one entry, with the name of the agent and the
  new content, in exactly the rounds that change the current content.
\<close>

theorem snapshots_follow_content:
  assumes k: "k < length agents"
    and before: "before = runAgents cwd fp 0 (take k agents) (initialState w1 agentStats orig)"
    and after: "after = runAgents cwd fp 0 (take (Suc k) agents) (initialState w1 agentStats orig)"
  shows "set (invocations (drop (length (oplog (st_world before))) (oplog (st_world after))))
           = {(name (agents ! k), st_currentContent before)}
       \<and> st_currentContent after
           = (case fst (runAgentSafely cwd (agents ! k) fp (st_currentContent before) (st_world before)) of
                Inr res \<Rightarrow> newContentOf res (st_currentContent before)
              | Inl e \<Rightarrow> st_currentContent before)
       \<and> st_contentEvolution after
           = st_contentEvolution before @
             (if st_currentContent after \<noteq> st_currentContent before
              then [\<lparr>stage = name (agents ! k), snap_content = st_currentContent after,
                     wordCount = Some (wordCountOf (st_currentContent after))\<rparr>]
              else [])
       \<and> st_currentContent (runAgents cwd fp 0 [] (initialState w1 agentStats orig)) = orig
       \<and> map stage (st_contentEvolution (runAgents cwd fp 0 agents (initialState w1 agentStats orig)))
           = ''original'' #
             map (\<lambda>j. name (agents ! j))
               (filter (\<lambda>j. st_currentContent (runAgents cwd fp 0 (take (Suc j) agents) (initialState w1 agentStats orig))
                           \<noteq> st_currentContent (runAgents cwd fp 0 (take j agents) (initialState w1 agentStats orig)))
                  [0 ..< length agents])"
proof -
  have step: "after = agentStep cwd fp k (agents ! k) before"
    unfolding after before by (rule runAgents_take_Suc [OF k])
  have "set (invocations (drop (length (oplog (st_world before))) (oplog (st_world after))))
           = {(name (agents ! k), st_currentContent before)}"
    unfolding step agentStep_world using runAgentSafely_invocations by blast
  moreover have "st_currentContent after
           = (case fst (runAgentSafely cwd (agents ! k) fp (st_currentContent before) (st_world before)) of
                Inr res \<Rightarrow> newContentOf res (st_currentContent before)
              | Inl e \<Rightarrow> st_currentContent before)"
    unfolding step by (rule agentStep_content)
  moreover have "st_contentEvolution after
           = st_contentEvolution before @
             (if st_currentContent after \<noteq> st_currentContent before
              then [\<lparr>stage = name (agents ! k), snap_content = st_currentContent after,
                     wordCount = Some (wordCountOf (st_currentContent after))\<rparr>]
              else [])"
    unfolding step by (rule agentStep_evolution)
  moreover have "st_currentContent (runAgents cwd fp 0 [] (initialState w1 agentStats orig)) = orig"
    by (simp add: initialState_def)
  moreover have "map stage (st_contentEvolution (runAgents cwd fp 0 agents (initialState w1 agentStats orig)))
           = ''original'' #
             map (\<lambda>j. name (agents ! j))
               (filter (\<lambda>j. st_currentContent (runAgents cwd fp 0 (take (Suc j) agents) (initialState w1 agentStats orig))
                           \<noteq> st_currentContent (runAgents cwd fp 0 (take j agents) (initialState w1 agentStats orig)))
                  [0 ..< length agents])"
    using stages_closed_form [of "length agents" agents cwd fp w1 agentStats orig] by simp
  ultimately show ?thesis by (intro conjI)
qed

text \<open>Agents A, B, C of which only B rewrites its working copy: the snapshots are
  \<open>original\<close> and \<open>B\<close>, and C is invoked with the text that B wrote.\<close>

lemma run_ABC_stage_filter:
  "''original'' #
     map (\<lambda>j. name ([quietAgent ''A'' 80, rewritingAgent ''B'' ''new text'', quietAgent ''C'' 60] ! j))
       (filter (\<lambda>j. st_currentContent (runAgents ''/w'' (path_join ''/w'' (path fi0)) 0
                          (take (Suc j) [quietAgent ''A'' 80, rewritingAgent ''B'' ''new text'', quietAgent ''C'' 60])
                          (initialState (logged (OpRead ''/w/docs/setup.md'') world0) Map.empty ''# Setup''))
                   \<noteq> st_currentContent (runAgents ''/w'' (path_join ''/w'' (path fi0)) 0
                          (take j [quietAgent ''A'' 80, rewritingAgent ''B'' ''new text'', quietAgent ''C'' 60])
                          (initialState (logged (OpRead ''/w/docs/setup.md'') world0) Map.empty ''# Setup'')))
          [0 ..< length [quietAgent ''A'' 80, rewritingAgent ''B'' ''new text'', quietAgent ''C'' 60]])
   = [''original'', ''B'']"
  by (simp add: upt_rec eval_simps cong: eval_congs)

lemma run_ABC_invocations:
  "invocations (oplog (st_world (runAgents ''/w'' (path_join ''/w'' (path fi0)) 0
       [quietAgent ''A'' 80, rewritingAgent ''B'' ''new text'', quietAgent ''C'' 60]
       (initialState (logged (OpRead ''/w/docs/setup.md'') world0) Map.empty ''# Setup''))))
   = [(''A'', ''# Setup''), (''B'', ''# Setup''), (''C'', ''new text'')]"
  by (simp add: eval_simps cong: eval_congs)

theorem snapshots_follow_content_witness:
  "\<exists>enh stats' w'.
     processFileSequentially ''/w''
       [quietAgent ''A'' 80, rewritingAgent ''B'' ''new text'', quietAgent ''C'' 60]
       fi0 Map.empty world0 = (Inr enh, stats', w')
     \<and> map stage (contentEvolution enh) = [''original'', ''B'']
     \<and> invocations (oplog w') = [(''A'', ''# Setup''), (''B'', ''# Setup''), (''C'', ''new text'')]"
proof -
  let ?ags = "[quietAgent ''A'' 80, rewritingAgent ''B'' ''new text'', quietAgent ''C'' 60]"
  let ?fp = "path_join ''/w'' (path fi0)"
  let ?init = "initialState (logged (OpRead ''/w/docs/setup.md'') world0) Map.empty ''# Setup''"
  have k: "(2::nat) < length ?ags" by simp
  obtain enh stats' w' where
    run: "processFileSequentially ''/w'' ?ags fi0 Map.empty world0 = (Inr enh, stats', w')" and
    enh: "enh = enhancementOf ?fp fi0 ''# Setup'' (runAgents ''/w'' ?fp 0 ?ags ?init)" and
    w': "w' = st_world (runAgents ''/w'' ?fp 0 ?ags ?init)"
    by (rule that [OF pFS_read [OF read_setup] refl refl])
  note cf = snapshots_follow_content [OF k refl refl, of "''/w''" ?fp
            "logged (OpRead ''/w/docs/setup.md'') world0" Map.empty "''# Setup''",
            THEN conjunct2, THEN conjunct2, THEN conjunct2, THEN conjunct2]
  have "map stage (st_contentEvolution (runAgents ''/w'' ?fp 0 ?ags ?init)) = [''original'', ''B'']"
    by (rule trans [OF cf run_ABC_stage_filter])
  then have "map stage (contentEvolution enh) = [''original'', ''B'']"
    unfolding enh by (simp add: enhancementOf_def del: runAgents.simps)
  moreover have "invocations (oplog w') = [(''A'', ''# Setup''), (''B'', ''# Setup''), (''C'', ''new text'')]"
    unfolding w' by (rule run_ABC_invocations)
  ultimately show ?thesis using run
    by (intro exI [of _ enh] exI [of _ stats'] exI [of _ w']) simp
qed

text \<open>
  Claim C2, as it is stated, asks for a snapshot for each agent whose returned content
  differs from the content it received. An agent that empties its working copy is invoked
  with the text of the document and returns the empty content, which differs; the empty
  string is falsy, so no snapshot is appended.
\<close>

theorem emptied_working_copy_counterexample:
  "\<not> isl (fst (processFileSequentially ''/w'' [rewritingAgent ''B'' ''''] fi0 Map.empty world0))
   \<and> invocations (oplog (snd (snd (processFileSequentially ''/w'' [rewritingAgent ''B'' ''''] fi0
                                     Map.empty world0))))
       = [(''B'', ''# Setup'')]
   \<and> map result (agentResults (projr (fst (processFileSequentially ''/w'' [rewritingAgent ''B'' ''''] fi0
                                             Map.empty world0))))
       = [Some \<lparr>enhancedMetadata =
                   Some \<lparr>ragScore = None, chunkingScore = Some 80, validationScore = None,
                         seoScore = None\<rparr>,
                 improvements = Some [''Restructured''], content = Some '''',
                 restructuredContent = None\<rparr>]
   \<and> map stage (contentEvolution (projr (fst (processFileSequentially ''/w'' [rewritingAgent ''B'' ''''] fi0
                                             Map.empty world0))))
       = [''original'']"
  unfolding pFS_read [OF read_setup]
  by (simp add: eval_simps cong: eval_congs)


subsection \<open>The document on disk\<close>

lemma runAgentSafely_ops:
  "\<exists>ops. oplog (snd (runAgentSafely cwd ag fp c w)) = oplog w @ ops \<and> list_all (inTempDir cwd) ops"
proof -
  obtain ops where ops: "oplog (snd (isolatedRun cwd ag c w)) = oplog w @ ops"
      "list_all (inTempDir cwd) ops"
    using isolatedRun_oplog by blast
  obtain out w1 where iso: "isolatedRun cwd ag c w = (out, w1)" by (cases "isolatedRun cwd ag c w")
  show ?thesis
  proof (cases out)
    case (Inl e)
    have "oplog (snd (runAgentSafely cwd ag fp c w))
        = oplog w @ (ops @ [OpRemove (tempDir cwd), OpInvoke (name ag) fp c])"
      using iso Inl ops(1) fallbackRun_oplog [of cwd ag fp c w1]
      by (simp add: runAgentSafely_def)
    moreover have "list_all (inTempDir cwd) (ops @ [OpRemove (tempDir cwd), OpInvoke (name ag) fp c])"
      using ops(2) by (simp add: inTempDir_simps)
    ultimately show ?thesis by blast
  next
    case (Inr r)
    have "oplog (snd (runAgentSafely cwd ag fp c w)) = oplog w @ ops"
      using iso Inr ops(1) by (simp add: runAgentSafely_def)
    with ops(2) show ?thesis by blast
  qed
qed

lemma runAgents_ops:
  "\<exists>ops. oplog (st_world (runAgents cwd fp i ags st)) = oplog (st_world st) @ ops
        \<and> list_all (inTempDir cwd) ops"
proof (induction ags arbitrary: i st)
  case Nil
  show ?case by simp
next
  case (Cons ag ags)
  obtain ops1 where o1: "oplog (st_world (agentStep cwd fp i ag st)) = oplog (st_world st) @ ops1"
      "list_all (inTempDir cwd) ops1"
    unfolding agentStep_world using runAgentSafely_ops by blast
  obtain ops2 where o2: "oplog (st_world (runAgents cwd fp (i + 1) ags (agentStep cwd fp i ag st)))
        = oplog (st_world (agentStep cwd fp i ag st)) @ ops2" "list_all (inTempDir cwd) ops2"
    using Cons.IH by blast
  from o1 o2 show ?case
    by (intro exI [of _ "ops1 @ ops2"]) simp
qed

text \<open>What the orchestrator itself does to the files while it processes a document: it
  reads the document, and everything after that stays in the temporary directory.\<close>

lemma orchestrator_own_operations:
  assumes "processFileSequentially cwd agents fi agentStats w = (Inr enh, stats', w')"
  shows "\<exists>ops. oplog w' = oplog w @ OpRead (path_join cwd (path fi)) # ops
             \<and> list_all (inTempDir cwd) ops"
proof -
  obtain orig w1 where rd: "fs_readFile (path_join cwd (path fi)) w = (Inr orig, w1)"
    using assms by (rule pFS_Inr)
  have w1: "oplog w1 = oplog w @ [OpRead (path_join cwd (path fi))]"
    using oplog_readFile [of "path_join cwd (path fi)" w] rd by simp
  have w': "w' = st_world (runAgents cwd (path_join cwd (path fi)) 0 agents (initialState w1 agentStats orig))"
    using assms pFS_read [OF rd, of agents agentStats] by simp
  obtain ops where "oplog w' = oplog (st_world (initialState w1 agentStats orig)) @ ops"
     "list_all (inTempDir cwd) ops"
    unfolding w' using runAgents_ops by blast
  with w1 show ?thesis by (simp add: initialState_def)
qed

lemma orchestrator_never_writes_document:
  assumes "processFileSequentially cwd agents fi agentStats w = (Inr enh, stats', w')"
    and "\<not> below (tempDir cwd) (path_join cwd (path fi))"
  shows "filter (\<lambda>op. opPath op = Some (path_join cwd (path fi))) (drop (length (oplog w)) (oplog w'))
       = [OpRead (path_join cwd (path fi))]"
proof -
  obtain ops where ops: "oplog w' = oplog w @ OpRead (path_join cwd (path fi)) # ops"
      "list_all (inTempDir cwd) ops"
    using orchestrator_own_operations [OF assms(1)] by blast
  have "filter (\<lambda>op. opPath op = Some (path_join cwd (path fi))) ops = []"
    using ops(2) assms(2) by (auto simp: filter_empty_conv list_all_iff inTempDir_def)
  with ops(1) show ?thesis by simp
qed

text \<open>
  Claim C6. The orchestrator reads the document once, before any agent runs, and never
  writes to it; content changes in memory and in temporary working copies only, so that
  the document on disk holds the same bytes after the orchestration as before.

  The file operations of the orchestrator itself are as the claim says
  (\<open>orchestrator_never_writes_document\<close>), but on the fallback path the wrapper hands the
  path of the document to the agent. With a temporary directory that cannot be created
  and an agent that writes to the file it is handed, the document is enhanced, and the
  document on disk has changed.
\<close>

theorem document_overwritten_on_fallback:
  "\<not> isl (fst (processFileSequentially ''/w'' [rewritingAgent ''B'' ''new text''] fi0 Map.empty world1))
   \<and> files (disk world1) ''/w/docs/setup.md'' = Some ''# Setup''
   \<and> files (disk (snd (snd (processFileSequentially ''/w'' [rewritingAgent ''B'' ''new text''] fi0
                                 Map.empty world1)))) ''/w/docs/setup.md''
     = Some ''new text''
   \<and> oplog (snd (snd (processFileSequentially ''/w'' [rewritingAgent ''B'' ''new text''] fi0
                                 Map.empty world1)))
     = [OpRead ''/w/docs/setup.md'', OpEnsureDir ''/w/.temp-agent-processing'',
        OpRemove ''/w/.temp-agent-processing'',
        OpInvoke ''B'' ''/w/docs/setup.md'' ''# Setup'']"
proof -
  have read: "fs_readFile (path_join ''/w'' (path fi0)) world1
     = (Inr ''# Setup'', logged (OpRead ''/w/docs/setup.md'') world1)"
    by (simp add: fs_readFile_def path_join_def fi0_def world1_def disk0_def)
  show ?thesis
    unfolding pFS_read [OF read]
    by (simp add: eval_simps cong: eval_congs)
qed


subsection \<open>The consolidated score\<close>

lemma metadataScore_firstPresent:
  assumes "case firstPresent m of None \<Rightarrow> True | Some x \<Rightarrow> x > 0"
  shows "metadataScore m = spec_resultScore (Some m) \<and> metadataScore m > 0"
  using assms
  by (auto simp: firstPresent_def metadataScore_def spec_resultScore_def js_or_def
      split: option.splits)

lemma pushedScores_scored:
  assumes "scoredResult r"
  shows "pushedScores r = (case result r of None \<Rightarrow> []
                           | Some res \<Rightarrow> [spec_resultScore (enhancedMetadata res)])"
proof (cases "result r")
  case None
  then show ?thesis by (simp add: pushedScores_def)
next
  case (Some res)
  with assms obtain m where m: "enhancedMetadata res = Some m"
      "case firstPresent m of None \<Rightarrow> True | Some x \<Rightarrow> x > 0"
    by (auto simp: scoredResult_def split: option.splits)
  from metadataScore_firstPresent [OF m(2)] Some m(1) show ?thesis
    by (simp add: pushedScores_def Let_def)
qed

lemma pushedScores_noScore:
  assumes "noScore r"
  shows "pushedScores r = [] \<or> pushedScores r = [75]"
  using assms
  by (auto simp: noScore_def pushedScores_def metadataScore_def js_or_def Let_def split: option.splits)

lemma all_75:
  assumes "\<forall>x \<in> set xs. x = (75::int)" and "xs \<noteq> []"
  shows "(of_int (sum_list xs) :: rat) / of_nat (length xs) = 75"
proof -
  have "sum_list xs = 75 * int (length xs)"
    using assms(1) by (induction xs) (auto simp: algebra_simps)
  then have "(of_int (sum_list xs) :: rat) = 75 * of_nat (length xs)"
    by simp
  with assms(2) show ?thesis by simp
qed

lemma floor_rat_numeral:
  "\<lfloor>(numeral a :: rat) / numeral b\<rfloor> = numeral a div numeral b"
  "\<lfloor>(1 :: rat) / numeral b\<rfloor> = 1 div numeral b"
  "\<lfloor>- ((numeral a :: rat) / numeral b)\<rfloor> = (- numeral a) div numeral b"
proof -
  show "\<lfloor>(numeral a :: rat) / numeral b\<rfloor> = numeral a div numeral b"
    by (metis floor_divide_of_int_eq of_int_numeral)
  show "\<lfloor>(1 :: rat) / numeral b\<rfloor> = 1 div numeral b"
    by (metis floor_divide_of_int_eq of_int_numeral of_int_1)
  have "- ((numeral a :: rat) / numeral b) = of_int (- numeral a) / of_int (numeral b)"
    by simp
  then show "\<lfloor>- ((numeral a :: rat) / numeral b)\<rfloor> = (- numeral a) div numeral b"
    by (simp only: floor_divide_of_int_eq)
qed

lemma Math_round_75: "Math_round 75 = 75"
  by (simp add: Math_round_def floor_rat_numeral)

lemma metadataScore_withoutZeros:
  "metadataScore m = spec_resultScore (Some (withoutZeros m))"
  by (simp add: metadataScore_def js_or_def spec_resultScore_def firstPresent_def
        withoutZeros_def dropZero_def split: option.splits)

text \<open>
  Claim C3, as the code has it, for scores that are integers. When every successful result
  carries a metadata object whose first present score field, in the order quality,
  structure, validation, keyword optimisation, is positive, and these scores are small
  enough for the doubles of the source to add them exactly, the consolidated score is the
  average, rounded to the nearest integer, of the scores of the successful results, the
  score of a result being its first present field, and 75 when it has none. When no
  result reports a score, the consolidated score is 75. For every metadata object, the
  score that the code takes from it is the first present field of the metadata without
  its fields that are 0, and 75 when none is left: a score of 0 is passed over as if it
  were absent.
\<close>

theorem consolidated_score_amended:
  "(list_all scoredResult rs \<and> exactInDoubles rs
      \<longrightarrow> calculateConsolidatedRAGScore rs = spec_consolidatedScore rs)
   \<and> (list_all noScore rs \<longrightarrow> calculateConsolidatedRAGScore rs = 75)
   \<and> metadataScore m = spec_resultScore (Some (withoutZeros m))"
proof (intro conjI impI)
  assume "list_all scoredResult rs \<and> exactInDoubles rs"
  then have sc: "list_all scoredResult rs" ..
  have eq: "map pushedScores rs
      = map (\<lambda>r. case result r of None \<Rightarrow> []
                  | Some res \<Rightarrow> [spec_resultScore (enhancedMetadata res)]) rs"
    using sc by (intro map_cong refl pushedScores_scored) (simp add: list_all_iff)
  have "(if 0 < length xs then Math_round (of_int (sum_list xs) / of_nat (length xs)) else 75)
      = (if xs = [] then 75 else Math_round (of_int (sum_list xs) / of_nat (length xs)))"
    for xs :: "int list"
    by simp
  then show "calculateConsolidatedRAGScore rs = spec_consolidatedScore rs"
    unfolding calculateConsolidatedRAGScore_def spec_consolidatedScore_def spec_scores_def
      Let_def eq .
next
  assume ns: "list_all noScore rs"
  have "\<forall>x \<in> set (concat (map pushedScores rs)). x = 75"
    using ns pushedScores_noScore by (fastforce simp: list_all_iff)
  then show "calculateConsolidatedRAGScore rs = 75"
    using all_75 [of "concat (map pushedScores rs)"]
    by (simp add: calculateConsolidatedRAGScore_def Let_def Math_round_75 del: set_concat)
next
  show "metadataScore m = spec_resultScore (Some (withoutZeros m))"
    by (rule metadataScore_withoutZeros)
qed

text \<open>Two agents that report 80 and 60, the second with a keyword optimisation score and
  a validation score of 0 behind it: the consolidated score is 70. One agent that
  reports nothing: 75.\<close>

theorem consolidated_score_amended_witness:
  "list_all scoredResult
     [successEntry ''A'' (Some \<lparr>ragScore = Some 80, chunkingScore = None, validationScore = None, seoScore = Some 0\<rparr>),
      successEntry ''B'' (Some \<lparr>ragScore = None, chunkingScore = None, validationScore = None, seoScore = Some 60\<rparr>)]
   \<and> exactInDoubles
     [successEntry ''A'' (Some \<lparr>ragScore = Some 80, chunkingScore = None, validationScore = None, seoScore = Some 0\<rparr>),
      successEntry ''B'' (Some \<lparr>ragScore = None, chunkingScore = None, validationScore = None, seoScore = Some 60\<rparr>)]
   \<and> calculateConsolidatedRAGScore
     [successEntry ''A'' (Some \<lparr>ragScore = Some 80, chunkingScore = None, validationScore = None, seoScore = Some 0\<rparr>),
      successEntry ''B'' (Some \<lparr>ragScore = None, chunkingScore = None, validationScore = None, seoScore = Some 60\<rparr>)]
     = 70
   \<and> list_all noScore [successEntry ''A'' None]
   \<and> calculateConsolidatedRAGScore [successEntry ''A'' None] = 75"
proof -
  let ?rs = "[successEntry ''A'' (Some \<lparr>ragScore = Some 80, chunkingScore = None, validationScore = None, seoScore = Some 0\<rparr>),
      successEntry ''B'' (Some \<lparr>ragScore = None, chunkingScore = None, validationScore = None, seoScore = Some 60\<rparr>)]"
  have a: "list_all scoredResult ?rs"
    by (simp add: scoredResult_def firstPresent_def successEntry_def)
  have sc: "spec_scores ?rs = [80, 60]"
    by (simp add: spec_scores_def spec_resultScore_def firstPresent_def successEntry_def)
  have e: "exactInDoubles ?rs"
    by (simp add: exactInDoubles_def sc)
  have b: "spec_consolidatedScore ?rs = 70"
    by (simp add: spec_consolidatedScore_def sc Math_round_def floor_rat_numeral)
  have c: "list_all noScore [successEntry ''A'' None]"
    by (simp add: noScore_def successEntry_def)
  from consolidated_score_amended [of ?rs] a e b
    consolidated_score_amended [of "[successEntry ''A'' None]"] c
  show ?thesis by simp
qed

text \<open>
  Claim C3, as it is stated, takes the first score field that is present and averages
  over all successful results. A quality score of 0 is present, but \<^verbatim>\<open>||\<close> passes over
  it: with a quality score of 0 and a structure score of 50 the code consolidates to 50,
  the rounded average of the first present fields is 0. A successful result without
  metadata pushes no score: beside a result that reports 80 the code consolidates to 80,
  the average with the default 75 rounds to 78. A negative score is not pushed: alone, it
  leaves the code at the default 75.
\<close>

theorem consolidated_score_counterexample:
  "calculateConsolidatedRAGScore
     [successEntry ''A'' (Some \<lparr>ragScore = Some 0, chunkingScore = Some 50, validationScore = None, seoScore = None\<rparr>)]
     = 50
   \<and> spec_consolidatedScore
     [successEntry ''A'' (Some \<lparr>ragScore = Some 0, chunkingScore = Some 50, validationScore = None, seoScore = None\<rparr>)]
     = 0
   \<and> calculateConsolidatedRAGScore
     [successEntry ''A'' (Some \<lparr>ragScore = Some 80, chunkingScore = None, validationScore = None, seoScore = None\<rparr>),
      successEntry ''B'' None]
     = 80
   \<and> spec_consolidatedScore
     [successEntry ''A'' (Some \<lparr>ragScore = Some 80, chunkingScore = None, validationScore = None, seoScore = None\<rparr>),
      successEntry ''B'' None]
     = 78
   \<and> calculateConsolidatedRAGScore
     [successEntry ''A'' (Some \<lparr>ragScore = Some (- 5), chunkingScore = None, validationScore = None, seoScore = None\<rparr>)]
     = 75
   \<and> spec_consolidatedScore
     [successEntry ''A'' (Some \<lparr>ragScore = Some (- 5), chunkingScore = None, validationScore = None, seoScore = None\<rparr>)]
     = - 5"
  by (simp add: calculateConsolidatedRAGScore_def pushedScores_def metadataScore_def js_or_def
        spec_consolidatedScore_def spec_scores_def spec_resultScore_def firstPresent_def
        successEntry_def Math_round_def floor_rat_numeral)

subsection \<open>A batch without documents or without agents\<close>

text \<open>
  Claim C8. A batch whose document list is empty or is not a list, or whose agent list is
  empty, fails at once with a configuration error and processes nothing: \<^verbatim>\<open>execute\<close> throws
  at the validation, when the logger holds the one entry of its initialisation, and
  returns the failure with the message thrown. The world is as it was, so no document was
  read and no agent invoked, and the statistics, which are created after the validation,
  do not exist.
\<close>

theorem invalid_batch_fails_fast:
  assumes "processedFiles = NonArray ty \<or> processedFiles = FileArray [] \<or> agents = []"
  shows "\<exists>msg. validateInputs processedFiles agents = Inl msg
       \<and> execute_try cwd publish agents processedFiles w
           = (Inl (msg, RunLogger_new (clock (disk w))), w)
       \<and> length (logEntries (RunLogger_new (clock (disk w)))) = 1
       \<and> execute cwd publish agents processedFiles w = (Failure msg (clock (disk w)), w)"
proof -
  have "\<exists>msg. validateInputs processedFiles agents = Inl msg"
    using assms by (auto simp: validateInputs_def split: js_files.splits)
  then obtain msg where v: "validateInputs processedFiles agents = Inl msg" ..
  then have t: "execute_try cwd publish agents processedFiles w
           = (Inl (msg, RunLogger_new (clock (disk w))), w)"
    by (simp add: execute_try_def Let_def)
  then have "execute cwd publish agents processedFiles w = (Failure msg (clock (disk w)), w)"
    by (simp add: execute_def)
  moreover have "length (logEntries (RunLogger_new (clock (disk w)))) = 1"
    by (simp add: RunLogger_new_def Let_def)
  ultimately show ?thesis using v t by blast
qed

text \<open>An empty document list, an empty agent list, and a document list that is
  \<^verbatim>\<open>undefined\<close>.\<close>

theorem invalid_batch_fails_fast_witness:
  "execute ''/w'' noPublisher [mockAgent] (FileArray []) world0
     = (Failure ''Invalid processedFiles: object'' 0, world0)
   \<and> execute ''/w'' noPublisher [] (FileArray [fi0]) world0
     = (Failure ''No agents available for processing'' 0, world0)
   \<and> execute ''/w'' noPublisher [mockAgent] (NonArray ''undefined'') world0
     = (Failure ''Invalid processedFiles: undefined'' 0, world0)
   \<and> logEntries (snd (projl (fst (execute_try ''/w'' noPublisher [mockAgent] (FileArray []) world0))))
     = [\<lparr>timestamp = 0, level = ''INFO'',
         message = ''[Run Logger] Capturing console output to: ./logs/runs/run-0.log''\<rparr>]"
proof -
  have c0: "clock (disk world0) = 0" by (simp add: world0_def disk0_def)
  have a: "FileArray [] = NonArray ty \<or> FileArray [] = FileArray [] \<or> [mockAgent] = []" for ty
    by simp
  have b: "FileArray [fi0] = NonArray ty \<or> FileArray [fi0] = FileArray [] \<or> ([]::agent list) = []" for ty
    by simp
  have c: "NonArray ''undefined'' = NonArray ''undefined'' \<or> NonArray ''undefined'' = FileArray []
            \<or> [mockAgent] = []"
    by simp
  from invalid_batch_fails_fast [OF a, of "''/w''" noPublisher world0]
  have 1: "execute ''/w'' noPublisher [mockAgent] (FileArray []) world0
     = (Failure ''Invalid processedFiles: object'' 0, world0)"
    and 4: "execute_try ''/w'' noPublisher [mockAgent] (FileArray []) world0
           = (Inl (''Invalid processedFiles: object'', RunLogger_new 0), world0)"
    by (auto simp: validateInputs_def c0)
  from invalid_batch_fails_fast [OF b, of "''/w''" noPublisher world0]
  have 2: "execute ''/w'' noPublisher [] (FileArray [fi0]) world0
     = (Failure ''No agents available for processing'' 0, world0)"
    by (auto simp: validateInputs_def c0)
  from invalid_batch_fails_fast [OF c, of "''/w''" noPublisher world0]
  have 3: "execute ''/w'' noPublisher [mockAgent] (NonArray ''undefined'') world0
     = (Failure ''Invalid processedFiles: undefined'' 0, world0)"
    by (auto simp: validateInputs_def c0)
  have 5: "logEntries (RunLogger_new 0) = [\<lparr>timestamp = 0, level = ''INFO'',
         message = ''[Run Logger] Capturing console output to: ./logs/runs/run-0.log''\<rparr>]"
    by (simp add: RunLogger_new_def Let_def show_int_def dec.simps digit_char_def)
  from 1 2 3 4 5 show ?thesis by simp
qed

subsection \<open>The counts of a summary\<close>

lemma processAll_lengths:
  assumes "processAll cwd agents fis enhs errs agentStats w = (enhs', errs', stats', w')"
  shows "length enhs' + length errs' = length enhs + length errs + length fis"
  using assms
proof (induction fis arbitrary: enhs errs agentStats w)
  case Nil
  then show ?case by simp
next
  case (Cons fi fis)
  obtain out stats1 w1 where p: "processFileSequentially cwd agents fi agentStats w = (out, stats1, w1)"
    by (cases "processFileSequentially cwd agents fi agentStats w") auto
  show ?case
  proof (cases out)
    case (Inl msg)
    with Cons.prems p have "processAll cwd agents fis enhs
            (errs @ [\<lparr>err_file = title fi, errorMessage = msg\<rparr>]) stats1 w1 = (enhs', errs', stats', w')"
      by simp
    from Cons.IH [OF this] show ?thesis by simp
  next
    case (Inr e)
    with Cons.prems p have "processAll cwd agents fis (enhs @ [e]) errs stats1 w1 = (enhs', errs', stats', w')"
      by simp
    from Cons.IH [OF this] show ?thesis by simp
  qed
qed

lemma execute_Success:
  assumes "execute cwd publish agents pf w = (Success summ enhs errs stats, w')"
  shows "\<exists>fs. validateInputs pf agents = Inr fs
       \<and> sum_successful summ = length enhs \<and> sum_failed summ = length errs
       \<and> totalFiles summ = length enhs + length errs
       \<and> length enhs + length errs = length fs"
proof (cases "validateInputs pf agents")
  case (Inl msg)
  with assms show ?thesis by (simp add: execute_def execute_try_def Let_def)
next
  case (Inr fs)
  obtain enhs1 errs1 stats1 w1 where
    pa: "processAll cwd agents fs [] [] (initializeAgentStats agents) w = (enhs1, errs1, stats1, w1)"
    by (cases "processAll cwd agents fs [] [] (initializeAgentStats agents) w") auto
  from processAll_lengths [OF pa] have len: "length enhs1 + length errs1 = length fs" by simp
  from assms Inr pa have "enhs = enhs1" "errs = errs1"
     "summ = (generateWorkflowSummary agents (clock (disk w1)) enhs1 errs1)
              \<lparr>githubPR := Some (publish enhs1 (generateWorkflowSummary agents (clock (disk w1)) enhs1 errs1))\<rparr>"
    by (auto simp: execute_def execute_try_def Let_def)
  with len Inr show ?thesis
    by (simp add: generateWorkflowSummary_def Let_def)
qed

lemma validateInputs_Inr:
  "validateInputs pf agents = Inr fs \<Longrightarrow> pf = FileArray fs"
  by (auto simp: validateInputs_def split: js_files.splits if_splits)

lemma processDocuments_Success:
  assumes "processDocuments cwd publish loadable t docs w
             = (TaskResult (Success summ enhs errs stats), t', w')"
  shows "totalFiles summ = length docs
       \<and> skipped summ = Some (length (filter (\<lambda>f. \<not> needsEnhancement f) docs))
       \<and> sum_successful summ = length enhs \<and> sum_failed summ = length errs
       \<and> length enhs + length errs = length (filter needsEnhancement docs)"
proof -
  let ?t1 = "if team_agents t = [] \<or> tasks t = [] then initialize loadable t else t"
  from assms have ne: "filter needsEnhancement docs \<noteq> []"
    by (auto simp: processDocuments_def Let_def split: if_splits)
  from assms ne obtain task rest where ts: "tasks ?t1 = task # rest"
    by (cases "tasks ?t1") (auto simp: processDocuments_def Let_def split: if_splits)
  obtain r w1 where ex: "execute cwd publish task (FileArray (filter needsEnhancement docs)) w = (r, w1)"
    by (cases "execute cwd publish task (FileArray (filter needsEnhancement docs)) w") auto
  from assms ne ts ex obtain summ0 where
    r: "r = Success summ0 enhs errs stats" and
    summ: "summ = summ0\<lparr>skipped := Some (length (filter (\<lambda>f. \<not> needsEnhancement f) docs)),
                        totalFiles := length docs,
                        agentCount := length (team_agents ?t1)\<rparr>"
    by (cases r) (auto simp: processDocuments_def Let_def split: if_splits)
  from execute_Success [OF ex [unfolded r]] obtain fs where
    fs: "validateInputs (FileArray (filter needsEnhancement docs)) task = Inr fs"
      "sum_successful summ0 = length enhs" "sum_failed summ0 = length errs"
      "length enhs + length errs = length fs"
    by blast
  from validateInputs_Inr [OF fs(1)] have "fs = filter needsEnhancement docs" by simp
  with fs summ show ?thesis by simp
qed

text \<open>
  Claim C9, as the code has it. In the summary that \<^verbatim>\<open>execute\<close> returns, the successful
  and the failed documents add up to the total, and they are the numbers of enhancements
  and of errors returned. In the summary that the team returns, the team has set the
  total to the number of all files, the skipped ones included: there the successful, the
  failed and the skipped documents add up to the total.
\<close>

theorem summary_counts_amended:
  "(execute cwd publish agents pf w = (Success summ enhs errs stats, w')
      \<longrightarrow> sum_successful summ + sum_failed summ = totalFiles summ
        \<and> sum_successful summ = length enhs \<and> sum_failed summ = length errs)
   \<and> (processDocuments cwd publish loadable t docs w
          = (TaskResult (Success summ2 enhs2 errs2 stats2), t', w2)
      \<longrightarrow> sum_successful summ2 + sum_failed summ2 + skippedCount summ2 = totalFiles summ2
        \<and> totalFiles summ2 = length docs
        \<and> sum_successful summ2 = length enhs2 \<and> sum_failed summ2 = length errs2)"
proof (intro conjI impI)
  assume ex: "execute cwd publish agents pf w = (Success summ enhs errs stats, w')"
  from execute_Success [OF ex]
  show "sum_successful summ + sum_failed summ = totalFiles summ"
    "sum_successful summ = length enhs" "sum_failed summ = length errs"
    by auto
next
  assume pd: "processDocuments cwd publish loadable t docs w
          = (TaskResult (Success summ2 enhs2 errs2 stats2), t', w2)"
  note f = processDocuments_Success [OF pd]
  have "length (filter needsEnhancement docs) + length (filter (\<lambda>f. \<not> needsEnhancement f) docs)
      = length docs"
    by (rule sum_length_filter_compl)
  with f show "sum_successful summ2 + sum_failed summ2 + skippedCount summ2 = totalFiles summ2"
    by (simp add: skippedCount_def)
  from f show "totalFiles summ2 = length docs" "sum_successful summ2 = length enhs2"
    "sum_failed summ2 = length errs2"
    by simp_all
qed

lemma execute_total:
  assumes "validateInputs pf agents = Inr fs"
  shows "\<exists>summ enhs errs stats w'. execute cwd publish agents pf w = (Success summ enhs errs stats, w')"
  using assms by (simp add: execute_def execute_try_def Let_def split: prod.splits)

lemma team_run_example:
  "\<exists>summ enhs errs stats t' w'.
     processDocuments ''/w'' noPublisher [] \<lparr>team_agents = [], tasks = []\<rparr> [fi0, fi1] world0
       = (TaskResult (Success summ enhs errs stats), t', w')"
proof -
  have init: "initialize [] \<lparr>team_agents = [], tasks = []\<rparr>
      = \<lparr>team_agents = [mockAgent], tasks = [mockAgent] # []\<rparr>"
    by (simp add: initialize_def loadAllAgents_def addAgent_def maxAgents_def Let_def)
  have f1: "filter needsEnhancement [fi0, fi1] = [fi0]"
    and f2: "filter (\<lambda>f. \<not> needsEnhancement f) [fi0, fi1] = [fi1]"
    by (simp_all add: fi0_def fi1_def)
  have "validateInputs (FileArray [fi0]) [mockAgent] = Inr [fi0]"
    by (simp add: validateInputs_def)
  from execute_total [OF this] obtain summ enhs errs stats w' where
    ex: "execute ''/w'' noPublisher [mockAgent] (FileArray [fi0]) world0
           = (Success summ enhs errs stats, w')"
    by blast
  show ?thesis
    unfolding processDocuments_def Let_def f1 f2
    by (simp add: init ex)
qed

text \<open>A batch of one document, and a team run over that document and one that needs no
  enhancement.\<close>

theorem summary_counts_amended_witness:
  "(\<exists>summ enhs errs stats w'.
      execute ''/w'' noPublisher [mockAgent] (FileArray [fi0]) world0
        = (Success summ enhs errs stats, w')
      \<and> sum_successful summ + sum_failed summ = totalFiles summ)
   \<and> (\<exists>summ enhs errs stats t' w'.
      processDocuments ''/w'' noPublisher [] \<lparr>team_agents = [], tasks = []\<rparr> [fi0, fi1] world0
        = (TaskResult (Success summ enhs errs stats), t', w')
      \<and> sum_successful summ + sum_failed summ + skippedCount summ = totalFiles summ
      \<and> totalFiles summ = 2)"
proof
  have "validateInputs (FileArray [fi0]) [mockAgent] = Inr [fi0]"
    by (simp add: validateInputs_def)
  from execute_total [OF this] obtain summ enhs errs stats w' where
    ex: "execute ''/w'' noPublisher [mockAgent] (FileArray [fi0]) world0
           = (Success summ enhs errs stats, w')"
    by blast
  from summary_counts_amended [THEN conjunct1, rule_format, OF ex] ex
  show "\<exists>summ enhs errs stats w'.
      execute ''/w'' noPublisher [mockAgent] (FileArray [fi0]) world0
        = (Success summ enhs errs stats, w')
      \<and> sum_successful summ + sum_failed summ = totalFiles summ"
    by (intro exI [of _ summ] exI [of _ enhs] exI [of _ errs] exI [of _ stats] exI [of _ w']) simp
next
  obtain summ enhs errs stats t' w' where
    pd: "processDocuments ''/w'' noPublisher [] \<lparr>team_agents = [], tasks = []\<rparr> [fi0, fi1] world0
       = (TaskResult (Success summ enhs errs stats), t', w')"
    using team_run_example by blast
  from summary_counts_amended [THEN conjunct2, rule_format, OF pd] pd
  show "\<exists>summ enhs errs stats t' w'.
      processDocuments ''/w'' noPublisher [] \<lparr>team_agents = [], tasks = []\<rparr> [fi0, fi1] world0
        = (TaskResult (Success summ enhs errs stats), t', w')
      \<and> sum_successful summ + sum_failed summ + skippedCount summ = totalFiles summ
      \<and> totalFiles summ = 2"
    by (intro exI [of _ summ] exI [of _ enhs] exI [of _ errs] exI [of _ stats] exI [of _ t']
          exI [of _ w']) simp
qed

text \<open>
  Claim C9, as it is stated, holds the equation for the summary after the team has merged
  the skipped files into it. With one file to enhance and one to skip, the successful and
  the failed documents are one, the total is two.
\<close>

theorem skipped_files_counterexample:
  "summaryOf (fst (processDocuments ''/w'' noPublisher [] \<lparr>team_agents = [], tasks = []\<rparr>
                     [fi0, fi1] world0)) \<noteq> None
   \<and> sum_successful (the (summaryOf (fst (processDocuments ''/w'' noPublisher []
                     \<lparr>team_agents = [], tasks = []\<rparr> [fi0, fi1] world0))))
     + sum_failed (the (summaryOf (fst (processDocuments ''/w'' noPublisher []
                     \<lparr>team_agents = [], tasks = []\<rparr> [fi0, fi1] world0))))
     = 1
   \<and> totalFiles (the (summaryOf (fst (processDocuments ''/w'' noPublisher []
                     \<lparr>team_agents = [], tasks = []\<rparr> [fi0, fi1] world0))))
     = 2"
proof -
  obtain summ enhs errs stats t' w' where
    pd: "processDocuments ''/w'' noPublisher [] \<lparr>team_agents = [], tasks = []\<rparr> [fi0, fi1] world0
       = (TaskResult (Success summ enhs errs stats), t', w')"
    using team_run_example by blast
  have f1: "filter needsEnhancement [fi0, fi1] = [fi0]"
    by (simp add: fi0_def fi1_def)
  from processDocuments_Success [OF pd] f1
  have "sum_successful summ + sum_failed summ = 1" "totalFiles summ = 2"
    by simp_all
  then show ?thesis
    by (simp add: pd summaryOf_def summaryOfExec_def)
qed


end
